theory Spec2Isabelle
  imports Main "HOL-Library.Word"
begin

section \<open>Values of the JavaScript runtime\<close>

text \<open>
  A JavaScript string is a sequence of 16-bit code units; a \<^verbatim>\<open>Uint8Array\<close> is a
  sequence of bytes. An exception is a value: the platform's \<^verbatim>\<open>DOMException\<close>s
  by name, and the plain \<^verbatim>\<open>Error\<close> with its message.
\<close>

type_synonym byte = "8 word"
type_synonym code_unit = "16 word"
type_synonym js_string = "code_unit list"

datatype js_error =
    InvalidCharacterError
  | OperationError
  | InvalidAccessError
  | DataError
  | SyntaxError
  | Error string

text \<open>A string literal of the source, as code units.\<close>

definition lit :: "string \<Rightarrow> js_string" where
  "lit s = map (\<lambda>c. of_nat (of_char c)) s"

section \<open>Platform: Base64 (\<^verbatim>\<open>btoa\<close>, \<^verbatim>\<open>atob\<close>)\<close>

text \<open>
  The Base64 alphabet of RFC 4648: \<open>A-Z\<close> (0..25), \<open>a-z\<close> (26..51), \<open>0-9\<close> (52..61),
  \<open>+\<close> (62) and \<open>/\<close> (63).
\<close>

definition b64_char :: "nat \<Rightarrow> code_unit" where
  "b64_char n =
     (if n < 26 then of_nat (65 + n)
      else if n < 52 then of_nat (71 + n)
      else if n < 62 then of_nat (n - 4)
      else if n = 62 then 43
      else 47)"

definition b64_index :: "code_unit \<Rightarrow> nat option" where
  "b64_index c =
     (let u = unat c in
      if 65 \<le> u \<and> u \<le> 90 then Some (u - 65)
      else if 97 \<le> u \<and> u \<le> 122 then Some (u - 71)
      else if 48 \<le> u \<and> u \<le> 57 then Some (u + 4)
      else if u = 43 then Some 62
      else if u = 47 then Some 63
      else None)"

text \<open>Base64 encoding of a byte sequence, three bytes to four characters, padded with \<open>=\<close>.\<close>

fun base64_encode :: "byte list \<Rightarrow> js_string" where
  "base64_encode [] = []"
| "base64_encode [a] =
     [b64_char (unat a div 4), b64_char (unat a mod 4 * 16), 61, 61]"
| "base64_encode [a, b] =
     [b64_char (unat a div 4), b64_char (unat a mod 4 * 16 + unat b div 16),
      b64_char (unat b mod 16 * 4), 61]"
| "base64_encode (a # b # c # rest) =
     [b64_char (unat a div 4), b64_char (unat a mod 4 * 16 + unat b div 16),
      b64_char (unat b mod 16 * 4 + unat c div 64), b64_char (unat c mod 64)]
     @ base64_encode rest"

text \<open>
  \<^verbatim>\<open>btoa(data)\<close>: throws InvalidCharacterError when a code unit of \<open>data\<close> is above
  U+00FF; otherwise each code unit is one byte, and the result is their Base64 encoding.
\<close>

definition btoa :: "js_string \<Rightarrow> js_error + js_string" where
  "btoa data =
     (if list_ex (\<lambda>c. 255 < unat c) data then Inl InvalidCharacterError
      else Inr (base64_encode (map ucast data)))"

text \<open>
  The forgiving Base64 decoder behind \<^verbatim>\<open>atob\<close>: ASCII whitespace is removed; when the
  length is then a multiple of four, one or two trailing \<open>=\<close> are removed; a length of
  1 modulo 4 fails; a character outside the alphabet fails; the sextets are then read
  in groups of four, a final group of two or three giving one or two bytes, its
  left-over bits discarded.
\<close>

definition is_ascii_whitespace :: "code_unit \<Rightarrow> bool" where
  "is_ascii_whitespace c = (c = 9 \<or> c = 10 \<or> c = 12 \<or> c = 13 \<or> c = 32)"

definition strip_padding :: "js_string \<Rightarrow> js_string" where
  "strip_padding data =
     (if length data mod 4 = 0 then
        (case rev data of
           c1 # c2 # front \<Rightarrow>
             if c1 = 61 \<and> c2 = 61 then rev front
             else if c1 = 61 then rev (c2 # front)
             else data
         | _ \<Rightarrow> data)
      else data)"

fun decode_sextets :: "nat list \<Rightarrow> byte list" where
  "decode_sextets (a # b # c # d # rest) =
     [of_nat (a * 4 + b div 16), of_nat (b mod 16 * 16 + c div 4), of_nat (c mod 4 * 64 + d)]
     @ decode_sextets rest"
| "decode_sextets [a, b, c] = [of_nat (a * 4 + b div 16), of_nat (b mod 16 * 16 + c div 4)]"
| "decode_sextets [a, b] = [of_nat (a * 4 + b div 16)]"
| "decode_sextets [a] = []"
| "decode_sextets [] = []"

definition forgiving_base64_decode :: "js_string \<Rightarrow> byte list option" where
  "forgiving_base64_decode data =
     (let stripped = strip_padding (filter (\<lambda>c. \<not> is_ascii_whitespace c) data) in
      if length stripped mod 4 = 1 then None
      else if list_ex (\<lambda>c. b64_index c = None) stripped then None
      else Some (decode_sextets (map (\<lambda>c. the (b64_index c)) stripped)))"

definition atob :: "js_string \<Rightarrow> js_error + js_string" where
  "atob data =
     (case forgiving_base64_decode data of
        None \<Rightarrow> Inl InvalidCharacterError
      | Some bytes \<Rightarrow> Inr (map ucast bytes))"

text \<open>
  \<^verbatim>\<open>String.fromCharCode(...new Uint8Array(buffer))\<close>: one code unit for each byte.
\<close>

definition fromCharCode :: "byte list \<Rightarrow> js_string" where
  "fromCharCode bytes = map ucast bytes"

text \<open>
  \<^verbatim>\<open>Uint8Array.from(str, c => c.charCodeAt(0))\<close>: the string is iterated by code point
  (a high surrogate followed by a low one is a single element), the callback takes the
  first code unit of each element, and the array keeps it modulo 256.
\<close>

definition is_high_surrogate :: "code_unit \<Rightarrow> bool" where
  "is_high_surrogate u = (55296 \<le> unat u \<and> unat u \<le> 56319)"

definition is_low_surrogate :: "code_unit \<Rightarrow> bool" where
  "is_low_surrogate u = (56320 \<le> unat u \<and> unat u \<le> 57343)"

fun string_elements :: "js_string \<Rightarrow> js_string list" where
  "string_elements [] = []"
| "string_elements [u] = [[u]]"
| "string_elements (u # v # rest) =
     (if is_high_surrogate u \<and> is_low_surrogate v then [u, v] # string_elements rest
      else [u] # string_elements (v # rest))"

definition Uint8Array_from_charCodes :: "js_string \<Rightarrow> byte list" where
  "Uint8Array_from_charCodes str = map (\<lambda>c. ucast (hd c)) (string_elements str)"

section \<open>Platform: \<^verbatim>\<open>TextEncoder\<close> and \<^verbatim>\<open>TextDecoder\<close>\<close>

text \<open>
  \<^verbatim>\<open>new TextEncoder().encode(data)\<close>: the string is first converted to scalar values (a
  surrogate pair is one code point, an unpaired surrogate becomes U+FFFD), and each is
  written in UTF-8. A code point is a natural number.
\<close>

fun to_scalar_values :: "js_string \<Rightarrow> nat list" where
  "to_scalar_values [] = []"
| "to_scalar_values [u] =
     (if is_high_surrogate u \<or> is_low_surrogate u then [65533] else [unat u])"
| "to_scalar_values (u # v # rest) =
     (if is_high_surrogate u then
        (if is_low_surrogate v
         then (65536 + (unat u - 55296) * 1024 + (unat v - 56320)) # to_scalar_values rest
         else 65533 # to_scalar_values (v # rest))
      else if is_low_surrogate u then 65533 # to_scalar_values (v # rest)
      else unat u # to_scalar_values (v # rest))"

definition utf8_encode_code_point :: "nat \<Rightarrow> byte list" where
  "utf8_encode_code_point cp =
     (if cp < 128 then [of_nat cp]
      else if cp < 2048 then [of_nat (192 + cp div 64), of_nat (128 + cp mod 64)]
      else if cp < 65536 then
        [of_nat (224 + cp div 4096), of_nat (128 + cp div 64 mod 64), of_nat (128 + cp mod 64)]
      else
        [of_nat (240 + cp div 262144), of_nat (128 + cp div 4096 mod 64),
         of_nat (128 + cp div 64 mod 64), of_nat (128 + cp mod 64)])"

definition TextEncoder_encode :: "js_string \<Rightarrow> byte list" where
  "TextEncoder_encode data = concat (map utf8_encode_code_point (to_scalar_values data))"

text \<open>
  The UTF-8 decoder of the Encoding standard, in replacement mode (a \<^verbatim>\<open>TextDecoder\<close>
  built with no options is not fatal): its state is the code point being assembled,
  the continuation bytes seen and needed, and the range allowed for the next byte.
  A byte that cannot continue a sequence ends the sequence with U+FFFD and is then
  read again as the first byte of a new sequence; input that ends inside a sequence
  gives one U+FFFD.
\<close>

record utf8_decoder =
  code_point :: nat
  bytes_seen :: nat
  bytes_needed :: nat
  lower_boundary :: nat
  upper_boundary :: nat

definition utf8_initial :: utf8_decoder where
  "utf8_initial =
     \<lparr>code_point = 0, bytes_seen = 0, bytes_needed = 0,
      lower_boundary = 128, upper_boundary = 191\<rparr>"

definition utf8_lead :: "nat \<Rightarrow> nat list \<times> utf8_decoder" where
  "utf8_lead b =
     (if b \<le> 127 then ([b], utf8_initial)
      else if 194 \<le> b \<and> b \<le> 223 then
        ([], utf8_initial\<lparr>bytes_needed := 1, code_point := b mod 32\<rparr>)
      else if 224 \<le> b \<and> b \<le> 239 then
        ([], utf8_initial\<lparr>bytes_needed := 2, code_point := b mod 16,
              lower_boundary := (if b = 224 then 160 else 128),
              upper_boundary := (if b = 237 then 159 else 191)\<rparr>)
      else if 240 \<le> b \<and> b \<le> 244 then
        ([], utf8_initial\<lparr>bytes_needed := 3, code_point := b mod 8,
              lower_boundary := (if b = 240 then 144 else 128),
              upper_boundary := (if b = 244 then 143 else 191)\<rparr>)
      else ([65533], utf8_initial))"

definition utf8_handler :: "utf8_decoder \<Rightarrow> nat \<Rightarrow> nat list \<times> utf8_decoder" where
  "utf8_handler d b =
     (if bytes_needed d = 0 then utf8_lead b
      else if b < lower_boundary d \<or> upper_boundary d < b then
        (65533 # fst (utf8_lead b), snd (utf8_lead b))
      else
        (let cp = code_point d * 64 + b mod 64 in
         if bytes_seen d + 1 \<noteq> bytes_needed d then
           ([], d\<lparr>code_point := cp, bytes_seen := bytes_seen d + 1,
                   lower_boundary := 128, upper_boundary := 191\<rparr>)
         else ([cp], utf8_initial)))"

fun utf8_run :: "utf8_decoder \<Rightarrow> byte list \<Rightarrow> nat list" where
  "utf8_run d [] = (if bytes_needed d \<noteq> 0 then [65533] else [])"
| "utf8_run d (b # bs) = fst (utf8_handler d (unat b)) @ utf8_run (snd (utf8_handler d (unat b))) bs"

definition utf8_decode :: "byte list \<Rightarrow> nat list" where
  "utf8_decode bytes = utf8_run utf8_initial bytes"

text \<open>
  \<^verbatim>\<open>new TextDecoder().decode(bytes)\<close>: \<^verbatim>\<open>ignoreBOM\<close> is false, so a first code point
  U+FEFF is left out of the result; a code point above U+FFFF becomes a surrogate pair.
\<close>

definition drop_bom :: "nat list \<Rightarrow> nat list" where
  "drop_bom cps = (case cps of [] \<Rightarrow> [] | c # rest \<Rightarrow> if c = 65279 then rest else c # rest)"

definition code_point_units :: "nat \<Rightarrow> js_string" where
  "code_point_units cp =
     (if cp < 65536 then [of_nat cp]
      else [of_nat (55296 + (cp - 65536) div 1024), of_nat (56320 + (cp - 65536) mod 1024)])"

definition TextDecoder_decode :: "byte list \<Rightarrow> js_string" where
  "TextDecoder_decode bytes = concat (map code_point_units (drop_bom (utf8_decode bytes)))"

section \<open>Platform: \<^verbatim>\<open>crypto.subtle\<close> for RSA-OAEP\<close>

text \<open>
  A \<^verbatim>\<open>CryptoKey\<close> is its public attributes and an opaque handle to the key material.
  The mathematics of RSA-OAEP and the DER encodings of keys belong to the platform's
  cryptographic provider; they are a parameter of the model, a record of functions over
  the key material \<open>'m\<close>. Randomness is explicit: key generation takes the entropy it
  consumes, encryption the OAEP seed.
\<close>

datatype key_type = Public | Private

datatype key_usage = Encrypt | Decrypt | WrapKey | UnwrapKey | Sign | Verify | DeriveKey | DeriveBits

datatype key_format = Spki | Pkcs8

record RsaHashedKeyAlgorithm =
  name :: string
  modulusLength :: nat
  publicExponent :: "byte list"
  hash :: string

record 'm CryptoKey =
  ktype :: key_type
  extractable :: bool
  algorithm :: RsaHashedKeyAlgorithm
  usages :: "key_usage list"
  handle :: 'm

record 'a pair_of =
  publicKey :: 'a
  privateKey :: 'a

type_synonym 'm CryptoKeyPair = "'m CryptoKey pair_of"

record 'm provider =
  rsa_generate :: "byte list \<Rightarrow> nat \<Rightarrow> byte list \<Rightarrow> ('m \<times> 'm) option"
  rsa_bits :: "'m \<Rightarrow> nat"
  rsa_exponent :: "'m \<Rightarrow> byte list"
  oaep_encrypt :: "'m \<Rightarrow> string \<Rightarrow> byte list \<Rightarrow> byte list \<Rightarrow> byte list option"
  oaep_decrypt :: "'m \<Rightarrow> string \<Rightarrow> byte list \<Rightarrow> byte list option"
  spki_encode :: "'m \<Rightarrow> byte list"
  spki_parse :: "byte list \<Rightarrow> 'm option"
  pkcs8_encode :: "'m \<Rightarrow> byte list"
  pkcs8_parse :: "byte list \<Rightarrow> 'm option"

text \<open>
  \<^verbatim>\<open>generateKey\<close> for RSA-OAEP: a usage outside encrypt, decrypt, wrapKey, unwrapKey is a
  SyntaxError; a failed generation is an OperationError; the public key is always
  extractable and keeps the usages encrypt and wrapKey, the private key takes the
  caller's \<open>extractable\<close> and keeps decrypt and unwrapKey; a private key left with no
  usage is a SyntaxError.
\<close>

definition subtle_generateKey ::
  "'m provider \<Rightarrow> byte list \<Rightarrow> RsaHashedKeyAlgorithm \<Rightarrow> bool \<Rightarrow> key_usage list
    \<Rightarrow> js_error + 'm CryptoKeyPair" where
  "subtle_generateKey P entropy alg ext us =
     (if list_ex (\<lambda>u. u \<notin> {Encrypt, Decrypt, WrapKey, UnwrapKey}) us then Inl SyntaxError
      else
        (case rsa_generate P entropy (modulusLength alg) (publicExponent alg) of
           None \<Rightarrow> Inl OperationError
         | Some (pub, priv) \<Rightarrow>
             if filter (\<lambda>u. u \<in> {Decrypt, UnwrapKey}) us = [] then Inl SyntaxError
             else Inr
               \<lparr>publicKey =
                  \<lparr>ktype = Public, extractable = True, algorithm = alg,
                   usages = filter (\<lambda>u. u \<in> {Encrypt, WrapKey}) us, handle = pub\<rparr>,
                privateKey =
                  \<lparr>ktype = Private, extractable = ext, algorithm = alg,
                   usages = filter (\<lambda>u. u \<in> {Decrypt, UnwrapKey}) us, handle = priv\<rparr>\<rparr>))"

text \<open>
  \<^verbatim>\<open>exportKey\<close>: a key that is not extractable, or whose type does not fit the format
  (spki for public, pkcs8 for private), is an InvalidAccessError.
\<close>

definition subtle_exportKey ::
  "'m provider \<Rightarrow> key_format \<Rightarrow> 'm CryptoKey \<Rightarrow> js_error + byte list" where
  "subtle_exportKey P fmt key =
     (if \<not> extractable key then Inl InvalidAccessError
      else
        (case fmt of
           Spki \<Rightarrow>
             if ktype key \<noteq> Public then Inl InvalidAccessError
             else Inr (spki_encode P (handle key))
         | Pkcs8 \<Rightarrow>
             if ktype key \<noteq> Private then Inl InvalidAccessError
             else Inr (pkcs8_encode P (handle key))))"

text \<open>
  \<^verbatim>\<open>importKey\<close> for RSA-OAEP with a hash: for spki only encrypt and wrapKey are allowed
  usages, for pkcs8 only decrypt and unwrapKey (SyntaxError otherwise); data that does
  not parse as an RSA key of the format is a DataError; a private key imported with no
  usage is a SyntaxError. The key's modulus length and public exponent are read from
  the key material; the hash is the caller's.
\<close>

definition subtle_importKey ::
  "'m provider \<Rightarrow> key_format \<Rightarrow> byte list \<Rightarrow> string \<Rightarrow> string \<Rightarrow> bool \<Rightarrow> key_usage list
    \<Rightarrow> js_error + 'm CryptoKey" where
  "subtle_importKey P fmt keyData alg_name alg_hash ext us =
     (case fmt of
        Spki \<Rightarrow>
          if list_ex (\<lambda>u. u \<notin> {Encrypt, WrapKey}) us then Inl SyntaxError
          else
            (case spki_parse P keyData of
               None \<Rightarrow> Inl DataError
             | Some m \<Rightarrow>
                 Inr \<lparr>ktype = Public, extractable = ext,
                      algorithm =
                        \<lparr>name = alg_name, modulusLength = rsa_bits P m,
                         publicExponent = rsa_exponent P m, hash = alg_hash\<rparr>,
                      usages = us, handle = m\<rparr>)
      | Pkcs8 \<Rightarrow>
          if list_ex (\<lambda>u. u \<notin> {Decrypt, UnwrapKey}) us then Inl SyntaxError
          else
            (case pkcs8_parse P keyData of
               None \<Rightarrow> Inl DataError
             | Some m \<Rightarrow>
                 if us = [] then Inl SyntaxError
                 else
                   Inr \<lparr>ktype = Private, extractable = ext,
                        algorithm =
                          \<lparr>name = alg_name, modulusLength = rsa_bits P m,
                           publicExponent = rsa_exponent P m, hash = alg_hash\<rparr>,
                        usages = us, handle = m\<rparr>))"

text \<open>
  \<^verbatim>\<open>encrypt\<close> and \<^verbatim>\<open>decrypt\<close>: the algorithm named by the caller must be the key's and
  the key must carry the usage and have the right type (InvalidAccessError otherwise);
  the RSA-OAEP operation runs with the key's hash and an empty label, and any failure of
  it is an OperationError.
\<close>

definition subtle_encrypt ::
  "'m provider \<Rightarrow> string \<Rightarrow> 'm CryptoKey \<Rightarrow> byte list \<Rightarrow> byte list \<Rightarrow> js_error + byte list" where
  "subtle_encrypt P alg_name key seed plaintext =
     (if alg_name \<noteq> name (algorithm key) then Inl InvalidAccessError
      else if Encrypt \<notin> set (usages key) then Inl InvalidAccessError
      else if ktype key \<noteq> Public then Inl InvalidAccessError
      else
        (case oaep_encrypt P (handle key) (hash (algorithm key)) seed plaintext of
           None \<Rightarrow> Inl OperationError
         | Some ciphertext \<Rightarrow> Inr ciphertext))"

definition subtle_decrypt ::
  "'m provider \<Rightarrow> string \<Rightarrow> 'm CryptoKey \<Rightarrow> byte list \<Rightarrow> js_error + byte list" where
  "subtle_decrypt P alg_name key ciphertext =
     (if alg_name \<noteq> name (algorithm key) then Inl InvalidAccessError
      else if Decrypt \<notin> set (usages key) then Inl InvalidAccessError
      else if ktype key \<noteq> Private then Inl InvalidAccessError
      else
        (case oaep_decrypt P (handle key) (hash (algorithm key)) ciphertext of
           None \<Rightarrow> Inl OperationError
         | Some plaintext \<Rightarrow> Inr plaintext))"

section \<open>AsymmetricEncryption.ts\<close>

text \<open>
  An instance holds the two fields \<open>publicKey\<close> and \<open>privateKey\<close>, set by the constructor.
  Every method is asynchronous; \<open>await\<close> on a rejected promise rethrows, so a failing
  step ends the method with that error: \<open>await\<close> below is the sequencing of two steps.
\<close>

type_synonym 'm AsymmetricEncryption = "'m CryptoKey pair_of"

definition await :: "js_error + 'a \<Rightarrow> ('a \<Rightarrow> js_error + 'b) \<Rightarrow> js_error + 'b" where
  "await step rest = (case step of Inl e \<Rightarrow> Inl e | Inr v \<Rightarrow> rest v)"

definition constructor :: "'m CryptoKey \<Rightarrow> 'm CryptoKey \<Rightarrow> 'm AsymmetricEncryption" where
  "constructor pub priv = \<lparr>publicKey = pub, privateKey = priv\<rparr>"

definition generateKeyPair :: "'m provider \<Rightarrow> byte list \<Rightarrow> js_error + 'm CryptoKeyPair" where
  "generateKeyPair P entropy =
     subtle_generateKey P entropy
       \<lparr>name = ''RSA-OAEP'', modulusLength = 2048, publicExponent = [1, 0, 1],
        hash = ''SHA-256''\<rparr>
       True [Encrypt, Decrypt]"

definition New :: "'m provider \<Rightarrow> byte list \<Rightarrow> js_error + 'm AsymmetricEncryption" where
  "New P entropy =
     await (generateKeyPair P entropy)
       (\<lambda>keyPair. Inr (constructor (publicKey keyPair) (privateKey keyPair)))"

definition exportRSAKeyPairToBase64 ::
  "'m provider \<Rightarrow> 'm CryptoKeyPair \<Rightarrow> js_error + js_string pair_of" where
  "exportRSAKeyPairToBase64 P keyPair =
     await (subtle_exportKey P Spki (publicKey keyPair)) (\<lambda>exportedPublicKey.
     await (subtle_exportKey P Pkcs8 (privateKey keyPair)) (\<lambda>exportedPrivateKey.
     await (btoa (fromCharCode exportedPublicKey)) (\<lambda>base64PublicKey.
     await (btoa (fromCharCode exportedPrivateKey)) (\<lambda>base64PrivateKey.
     Inr \<lparr>publicKey = base64PublicKey, privateKey = base64PrivateKey\<rparr>))))"

definition importRSAKeyPairFromBase64 ::
  "'m provider \<Rightarrow> js_string \<Rightarrow> js_string \<Rightarrow> js_error + 'm CryptoKeyPair" where
  "importRSAKeyPairFromBase64 P base64PublicKey base64PrivateKey =
     await (atob base64PublicKey) (\<lambda>publicBinary.
     await (atob base64PrivateKey) (\<lambda>privateBinary.
     await (subtle_importKey P Spki (Uint8Array_from_charCodes publicBinary)
              ''RSA-OAEP'' ''SHA-256'' True [Encrypt]) (\<lambda>pub.
     await (subtle_importKey P Pkcs8 (Uint8Array_from_charCodes privateBinary)
              ''RSA-OAEP'' ''SHA-256'' True [Decrypt]) (\<lambda>priv.
     Inr \<lparr>publicKey = pub, privateKey = priv\<rparr>))))"

definition encrypt ::
  "'m provider \<Rightarrow> 'm AsymmetricEncryption \<Rightarrow> byte list \<Rightarrow> js_string \<Rightarrow> js_error + js_string" where
  "encrypt P this seed data =
     (let encodedData = TextEncoder_encode data in
      await (subtle_encrypt P ''RSA-OAEP'' (publicKey this) seed encodedData) (\<lambda>encryptedData.
      btoa (fromCharCode encryptedData)))"

definition decrypt ::
  "'m provider \<Rightarrow> 'm AsymmetricEncryption \<Rightarrow> js_string \<Rightarrow> js_error + js_string" where
  "decrypt P this encryptedBase64Data =
     await (atob encryptedBase64Data) (\<lambda>binary.
     let encryptedData = Uint8Array_from_charCodes binary in
     await (subtle_decrypt P ''RSA-OAEP'' (privateKey this) encryptedData) (\<lambda>decryptedData.
     Inr (TextDecoder_decode decryptedData)))"

section \<open>What is assumed of the cryptographic provider\<close>

text \<open>
  The properties of RSAES-OAEP (RFC 8017, section 7.1) and of the key encodings that the
  theorems below rest on, each a predicate of its own so that a theorem assumes only what
  it uses. \<open>generated P pub priv\<close>: the two key materials come from one generation call.
\<close>

definition hash_length :: "string \<Rightarrow> nat" where
  "hash_length h =
     (if h = ''SHA-1'' then 20 else if h = ''SHA-256'' then 32
      else if h = ''SHA-384'' then 48 else if h = ''SHA-512'' then 64 else 0)"

definition generated :: "'m provider \<Rightarrow> 'm \<Rightarrow> 'm \<Rightarrow> bool" where
  "generated P pub priv = (\<exists>entropy bits e. rsa_generate P entropy bits e = Some (pub, priv))"

text \<open>A generated key has the modulus length and the public exponent that were asked for.\<close>

definition keygen_sound :: "'m provider \<Rightarrow> bool" where
  "keygen_sound P =
     (\<forall>entropy bits e pub priv. rsa_generate P entropy bits e = Some (pub, priv) \<longrightarrow>
        rsa_bits P pub = bits \<and> rsa_bits P priv = bits
        \<and> rsa_exponent P pub = e \<and> rsa_exponent P priv = e)"

text \<open>
  RSAES-OAEP-ENCRYPT fails exactly when the message is longer than \<open>k - 2 hLen - 2\<close>
  octets, \<open>k\<close> the length of the modulus in octets.
\<close>

definition oaep_capacity :: "'m provider \<Rightarrow> bool" where
  "oaep_capacity P =
     (\<forall>pub priv h seed msg. generated P pub priv \<and> length seed = hash_length h \<longrightarrow>
        (oaep_encrypt P pub h seed msg = None)
          = ((rsa_bits P pub + 7) div 8 < length msg + 2 * hash_length h + 2))"

text \<open>Decryption with the private key of the pair inverts encryption.\<close>

definition oaep_inverse :: "'m provider \<Rightarrow> bool" where
  "oaep_inverse P =
     (\<forall>pub priv h seed msg c. generated P pub priv \<and> length seed = hash_length h
        \<and> oaep_encrypt P pub h seed msg = Some c \<longrightarrow> oaep_decrypt P priv h c = Some msg)"

text \<open>The ciphertext determines the seed: two different seeds give two ciphertexts.\<close>

definition oaep_seed_injective :: "'m provider \<Rightarrow> bool" where
  "oaep_seed_injective P =
     (\<forall>pub priv h s1 s2 msg c1 c2. generated P pub priv
        \<and> length s1 = hash_length h \<and> length s2 = hash_length h \<and> s1 \<noteq> s2
        \<and> oaep_encrypt P pub h s1 msg = Some c1 \<and> oaep_encrypt P pub h s2 msg = Some c2
        \<longrightarrow> c1 \<noteq> c2)"

text \<open>Parsing the encoding of a generated key gives the key back.\<close>

definition key_codec_inverse :: "'m provider \<Rightarrow> bool" where
  "key_codec_inverse P =
     (\<forall>pub priv. generated P pub priv \<longrightarrow>
        spki_parse P (spki_encode P pub) = Some pub
        \<and> pkcs8_parse P (pkcs8_encode P priv) = Some priv)"


subsection \<open>Keys that the operations accept\<close>

text \<open>
  What \<^verbatim>\<open>crypto.subtle\<close> asks of the key of an instance: for \<open>encrypt\<close> an RSA-OAEP
  public key with the encrypt usage (its material that of a generated key, so that the
  provider's properties speak of it), for \<open>decrypt\<close> an RSA-OAEP private key with the
  decrypt usage. \<open>fits P key n\<close>: a message of \<open>n\<close> bytes is within the capacity
  \<open>k - 2 hLen - 2\<close> of the key.
\<close>

definition can_encrypt_with :: "'m provider \<Rightarrow> 'm CryptoKey \<Rightarrow> bool" where
  "can_encrypt_with P key =
     (name (algorithm key) = ''RSA-OAEP'' \<and> Encrypt \<in> set (usages key) \<and> ktype key = Public
      \<and> (\<exists>priv. generated P (handle key) priv))"

definition fits :: "'m provider \<Rightarrow> 'm CryptoKey \<Rightarrow> nat \<Rightarrow> bool" where
  "fits P key n =
     (n + 2 * hash_length (hash (algorithm key)) + 2 \<le> (rsa_bits P (handle key) + 7) div 8)"

definition can_decrypt_with :: "'m CryptoKey \<Rightarrow> bool" where
  "can_decrypt_with key =
     (name (algorithm key) = ''RSA-OAEP'' \<and> Decrypt \<in> set (usages key) \<and> ktype key = Private)"

subsection \<open>A reference provider\<close>

text \<open>
  A small provider with these properties, to run the operations on: a key is its kind, an
  identifier, its modulus length and its exponent; a ciphertext is the key identifier, the
  seed, the message length on two bytes, the message, and zeros up to the modulus length.
  It stands for the platform's provider in evaluations only, and hides nothing.
\<close>

datatype toy_key = ToyKey (toy_private: bool) (toy_id: byte) (toy_bits: nat) (toy_exponent: "byte list")

definition toy_generate :: "byte list \<Rightarrow> nat \<Rightarrow> byte list \<Rightarrow> (toy_key \<times> toy_key) option" where
  "toy_generate entropy bits e =
     (if bits < 512 \<or> 65535 < bits then None
      else
        (let ident = (case entropy of [] \<Rightarrow> 0 | b # _ \<Rightarrow> b)
         in Some (ToyKey False ident bits e, ToyKey True ident bits e)))"

definition toy_encrypt :: "toy_key \<Rightarrow> string \<Rightarrow> byte list \<Rightarrow> byte list \<Rightarrow> byte list option" where
  "toy_encrypt key h seed msg =
     (let k = (toy_bits key + 7) div 8 in
      if k < length msg + 2 * hash_length h + 2 then None
      else Some (toy_id key # seed
                 @ of_nat (length msg div 256) # of_nat (length msg mod 256) # msg
                 @ replicate (k - (length msg + length seed + 3)) 0))"

definition toy_decrypt :: "toy_key \<Rightarrow> string \<Rightarrow> byte list \<Rightarrow> byte list option" where
  "toy_decrypt key h c =
     (case c of
        [] \<Rightarrow> None
      | i # body \<Rightarrow>
          if i \<noteq> toy_id key \<or> \<not> toy_private key then None
          else
            (case drop (hash_length h) body of
               hi # lo # tail \<Rightarrow>
                 (let n = unat hi * 256 + unat lo in
                  if length tail < n then None else Some (take n tail))
             | _ \<Rightarrow> None))"

definition toy_encode :: "toy_key \<Rightarrow> byte list" where
  "toy_encode key =
     (if toy_private key then 1 else 0) # toy_id key
     # of_nat (toy_bits key div 256) # of_nat (toy_bits key mod 256) # toy_exponent key"

definition toy_parse :: "bool \<Rightarrow> byte list \<Rightarrow> toy_key option" where
  "toy_parse private der =
     (case der of
        p # i # hi # lo # e \<Rightarrow>
          if p = (if private then 1 else 0)
          then Some (ToyKey private i (unat hi * 256 + unat lo) e)
          else None
      | _ \<Rightarrow> None)"

definition toy_provider :: "toy_key provider" where
  "toy_provider =
     \<lparr>rsa_generate = toy_generate, rsa_bits = toy_bits, rsa_exponent = toy_exponent,
      oaep_encrypt = toy_encrypt, oaep_decrypt = toy_decrypt,
      spki_encode = toy_encode, spki_parse = toy_parse False,
      pkcs8_encode = toy_encode, pkcs8_parse = toy_parse True\<rparr>"

section \<open>Notions of the specification\<close>

text \<open>
  Not taken from the source, but from the specification's words, to compare the code
  with: "valid UTF-8" is the UTF-8 encoding of some sequence of Unicode scalar values, and
  "valid Base64" (RFC 4648, standard alphabet, padded) is the Base64 encoding of some
  byte sequence.
\<close>

definition is_scalar_value :: "nat \<Rightarrow> bool" where
  "is_scalar_value cp = (cp < 55296 \<or> (57344 \<le> cp \<and> cp < 1114112))"

definition well_formed_utf8 :: "byte list \<Rightarrow> bool" where
  "well_formed_utf8 bytes =
     (\<exists>cps. list_all is_scalar_value cps \<and> bytes = concat (map utf8_encode_code_point cps))"

text \<open>A string with no unpaired surrogate: what a text is, as a JavaScript string.\<close>

fun well_formed_utf16 :: "js_string \<Rightarrow> bool" where
  "well_formed_utf16 [] = True"
| "well_formed_utf16 [u] = (\<not> is_high_surrogate u \<and> \<not> is_low_surrogate u)"
| "well_formed_utf16 (u # v # rest) =
     (if is_high_surrogate u then is_low_surrogate v \<and> well_formed_utf16 rest
      else \<not> is_low_surrogate u \<and> well_formed_utf16 (v # rest))"

definition is_base64_encoding :: "js_string \<Rightarrow> bool" where
  "is_base64_encoding s = (\<exists>bytes. s = base64_encode bytes)"

section \<open>ServicesContext.tsx\<close>

text \<open>
  \<^verbatim>\<open>createContext<IServices | null>(null)\<close>: the context's default value is null.
  \<^verbatim>\<open>useContext\<close> reads the value of the nearest enclosing provider, or the default
  when the component is under no provider. The enclosing providers are listed innermost
  first, each with the value it was given (null is \<open>None\<close>).
\<close>

record 'e IServices =
  encryptionService :: 'e

definition ServicesContext_default :: "'e IServices option" where
  "ServicesContext_default = None"

fun useContext :: "'v \<Rightarrow> 'v list \<Rightarrow> 'v" where
  "useContext dflt [] = dflt"
| "useContext dflt (v # outer) = v"

definition useServices :: "'e IServices option list \<Rightarrow> js_error + 'e IServices" where
  "useServices providers =
     (case useContext ServicesContext_default providers of
        None \<Rightarrow> Inl (Error ''useServices must be used within a ServicesProvider'')
      | Some context \<Rightarrow> Inr context)"

section \<open>Base64: decoding inverts encoding\<close>

text \<open>
  The encoder's output is the alphabet characters of the sextets of the input, then the
  padding; \<open>sextets_of\<close> and \<open>padding_of\<close> name these two parts.
\<close>

fun sextets_of :: "byte list \<Rightarrow> nat list" where
  "sextets_of [] = []"
| "sextets_of [a] = [unat a div 4, unat a mod 4 * 16]"
| "sextets_of [a, b] = [unat a div 4, unat a mod 4 * 16 + unat b div 16, unat b mod 16 * 4]"
| "sextets_of (a # b # c # rest) =
     [unat a div 4, unat a mod 4 * 16 + unat b div 16,
      unat b mod 16 * 4 + unat c div 64, unat c mod 64] @ sextets_of rest"

definition padding_of :: "byte list \<Rightarrow> nat" where
  "padding_of bs = (3 - length bs mod 3) mod 3"

lemma unat_byte_lt: "unat (a :: byte) < 256"
  using unsigned_less [of a, where ?'a = nat] by simp

lemma sextet_join_1: "(a::nat) div 4 * 4 + (a mod 4 * 16 + b div 16) div 16 = a" if "b < 256"
  using that by (simp add: div_mult2_eq [symmetric])

lemma sextet_join_2:
  "((a::nat) mod 4 * 16 + b div 16) mod 16 * 16 + (b mod 16 * 4 + c div 64) div 4 = b"
  if "b < 256" "c < 256"
proof -
  from that have "b div 16 < 16" "c div 64 < 4" by simp_all
  then have "(a mod 4 * 16 + b div 16) mod 16 = b div 16"
    "(b mod 16 * 4 + c div 64) div 4 = b mod 16" by simp_all
  then show ?thesis by simp
qed

lemma sextet_join_3: "((b::nat) mod 16 * 4 + c div 64) mod 4 * 64 + c mod 64 = c" if "c < 256"
proof -
  from that have "c div 64 < 4" by simp
  then have "(b mod 16 * 4 + c div 64) mod 4 = c div 64" by simp
  then show ?thesis by simp
qed

lemma unat_unit_of_nat: "k < 65536 \<Longrightarrow> unat (of_nat k :: code_unit) = k"
  by (simp add: unat_of_nat)

lemma unat_byte_of_nat: "k < 256 \<Longrightarrow> unat (of_nat k :: byte) = k"
  by (simp add: unat_of_nat)

lemma ucast_byte_unit: "ucast (ucast (a :: byte) :: code_unit) = a"
  by (simp add: ucast_up_ucast_id is_up)

lemma unat_ucast_byte: "unat (ucast (a :: byte) :: code_unit) = unat a"
proof -
  have "unat a < 2 ^ 16" using unat_byte_lt [of a] by simp
  then show ?thesis by (simp add: unsigned_ucast_eq take_bit_nat_eq_self)
qed

lemma b64_index_unat:
  "unat c = u \<Longrightarrow> b64_index c =
     (if 65 \<le> u \<and> u \<le> 90 then Some (u - 65)
      else if 97 \<le> u \<and> u \<le> 122 then Some (u - 71)
      else if 48 \<le> u \<and> u \<le> 57 then Some (u + 4)
      else if u = 43 then Some 62
      else if u = 47 then Some 63
      else None)"
  by (simp add: b64_index_def)

lemma unat_b64_char:
  "n < 64 \<Longrightarrow> unat (b64_char n) =
     (if n < 26 then 65 + n else if n < 52 then 71 + n else if n < 62 then n - 4
      else if n = 62 then 43 else 47)"
  unfolding b64_char_def
  using unat_unit_of_nat [of "65 + n"] unat_unit_of_nat [of "71 + n"] unat_unit_of_nat [of "n - 4"]
  by (simp del: of_nat_add of_nat_numeral of_nat_diff)

lemma b64_index_char: "b64_index (b64_char n) = Some n" if "n < 64"
proof -
  have "n < 26 \<or> (26 \<le> n \<and> n < 52) \<or> (52 \<le> n \<and> n < 62) \<or> n = 62 \<or> n = 63"
    using that by arith
  then show ?thesis
    unfolding b64_index_unat [OF unat_b64_char [OF that]]
    by (elim disjE; simp; arith)
qed

lemma b64_index_pad: "b64_index 61 = None"
  by (simp add: b64_index_def)

lemma b64_char_not_pad: "n < 64 \<Longrightarrow> b64_char n \<noteq> 61"
  using b64_index_char [of n] b64_index_pad by auto

lemma b64_index_ws: "is_ascii_whitespace c \<Longrightarrow> b64_index c = None"
  by (auto simp: is_ascii_whitespace_def b64_index_def)

lemma b64_char_not_ws: "n < 64 \<Longrightarrow> \<not> is_ascii_whitespace (b64_char n)"
  using b64_index_char [of n] b64_index_ws [of "b64_char n"] by auto

lemma pad_not_ws: "\<not> is_ascii_whitespace 61"
  by (simp add: is_ascii_whitespace_def)

lemma sextets_of_bound: "list_all (\<lambda>n. n < 64) (sextets_of bs)"
proof (induction bs rule: sextets_of.induct)
  case (2 a)
  have "unat a < 256" by (rule unat_byte_lt)
  then show ?case by simp
next
  case (3 a b)
  have "unat a < 256" "unat b < 256" by (rule unat_byte_lt)+
  then have "unat a div 4 < 64" "unat a mod 4 * 16 + unat b div 16 < 64" by linarith+
  then show ?case by simp
next
  case (4 a b c rest)
  have "unat a < 256" "unat b < 256" "unat c < 256" by (rule unat_byte_lt)+
  then have "unat a div 4 < 64" "unat a mod 4 * 16 + unat b div 16 < 64"
    "unat b mod 16 * 4 + unat c div 64 < 64" by linarith+
  with 4 show ?case by simp
qed simp

lemma base64_encode_sextets:
  "base64_encode bs = map b64_char (sextets_of bs) @ replicate (padding_of bs) 61"
proof (induction bs rule: sextets_of.induct)
  case (4 a b c rest)
  have "padding_of (a # b # c # rest) = padding_of rest"
    by (simp add: padding_of_def)
  with 4 show ?case by simp
qed (simp_all add: padding_of_def numeral_2_eq_2)

lemma decode_sextets_of: "decode_sextets (sextets_of bs) = bs"
proof (induction bs rule: sextets_of.induct)
  case (2 a)
  then show ?case by simp
next
  case (3 a b)
  have "unat a div 4 * 4 + (unat a mod 4 * 16 + unat b div 16) div 16 = unat a"
    by (rule sextet_join_1 [OF unat_byte_lt])
  moreover have "(unat a mod 4 * 16 + unat b div 16) mod 16 * 16 + (unat b mod 16 * 4 + 0 div 64) div 4 = unat b"
    by (rule sextet_join_2 [OF unat_byte_lt]) simp
  ultimately show ?case by simp
next
  case (4 a b c rest)
  have "unat a div 4 * 4 + (unat a mod 4 * 16 + unat b div 16) div 16 = unat a"
    by (rule sextet_join_1 [OF unat_byte_lt])
  moreover have "(unat a mod 4 * 16 + unat b div 16) mod 16 * 16
      + (unat b mod 16 * 4 + unat c div 64) div 4 = unat b"
    by (rule sextet_join_2 [OF unat_byte_lt unat_byte_lt])
  moreover have "(unat b mod 16 * 4 + unat c div 64) mod 4 * 64 + unat c mod 64 = unat c"
    by (rule sextet_join_3 [OF unat_byte_lt])
  ultimately show ?case using 4 by simp
qed simp

lemma length_sextets_padding: "(length (sextets_of bs) + padding_of bs) mod 4 = 0"
proof (induction bs rule: sextets_of.induct)
  case (4 a b c rest)
  have "padding_of (a # b # c # rest) = padding_of rest"
    by (simp add: padding_of_def)
  with 4 show ?case by simp
qed (simp_all add: padding_of_def)

lemma length_sextets_mod: "length (sextets_of bs) mod 4 \<noteq> 1"
  by (induction bs rule: sextets_of.induct) simp_all

lemma padding_cases: "padding_of bs = 0 \<or> padding_of bs = 1 \<or> padding_of bs = 2"
  unfolding padding_of_def by linarith

lemma padding_sextets_nonempty: "padding_of bs \<noteq> 0 \<Longrightarrow> sextets_of bs \<noteq> []"
  by (induction bs rule: sextets_of.induct) (simp_all add: padding_of_def)

lemma strip_padding_encoded:
  assumes "list_all (\<lambda>c. c \<noteq> 61) xs" and "length (xs @ replicate p 61) mod 4 = 0"
    and "p = 0 \<or> p = 1 \<or> p = 2" and "p \<noteq> 0 \<longrightarrow> xs \<noteq> []"
  shows "strip_padding (xs @ replicate p 61) = xs"
proof (cases xs rule: rev_cases)
  case Nil
  with assms show ?thesis by (simp add: strip_padding_def)
next
  case (snoc ys y)
  note s = snoc
  with assms(1) have y: "y \<noteq> 61" by simp
  show ?thesis
  proof (cases ys rule: rev_cases)
    case Nil
    with s y assms(2,3) show ?thesis
      by (auto simp: strip_padding_def numeral_2_eq_2)
  next
    case (snoc zs z)
    with s assms(1) have "z \<noteq> 61" by simp
    with snoc s y assms(2,3) show ?thesis
      by (auto simp: strip_padding_def numeral_2_eq_2)
  qed
qed

lemma forgiving_base64_decode_encode:
  "forgiving_base64_decode (base64_encode bs) = Some bs"
proof -
  let ?xs = "map b64_char (sextets_of bs)"
  have bound: "list_all (\<lambda>n. n < 64) (sextets_of bs)" by (rule sextets_of_bound)
  have nows: "filter (\<lambda>c. \<not> is_ascii_whitespace c) (base64_encode bs) = base64_encode bs"
    unfolding base64_encode_sextets using bound
    by (auto simp: filter_id_conv list_all_iff b64_char_not_ws pad_not_ws)
  have nopad: "list_all (\<lambda>c. c \<noteq> 61) ?xs"
    using bound by (auto simp: list_all_iff b64_char_not_pad)
  have strip: "strip_padding (base64_encode bs) = ?xs"
    unfolding base64_encode_sextets
    using nopad length_sextets_padding [of bs] padding_cases [of bs] padding_sextets_nonempty [of bs]
    by (intro strip_padding_encoded) auto
  have idx: "map (\<lambda>c. the (b64_index c)) ?xs = sextets_of bs"
    using bound by (auto simp: list_all_iff b64_index_char intro: map_idI)
  have ok: "\<not> list_ex (\<lambda>c. b64_index c = None) ?xs"
    using bound by (auto simp: list_all_iff list_ex_iff b64_index_char)
  show ?thesis
    using length_sextets_mod [of bs] ok
    by (simp add: forgiving_base64_decode_def nows strip idx decode_sextets_of del: map_map)
qed

lemma base64_encode_inj:
  assumes "base64_encode a = base64_encode b"
  shows "a = b"
proof -
  have "Some a = forgiving_base64_decode (base64_encode a)"
    by (simp only: forgiving_base64_decode_encode)
  also have "\<dots> = forgiving_base64_decode (base64_encode b)"
    by (simp only: assms)
  also have "\<dots> = Some b"
    by (simp only: forgiving_base64_decode_encode)
  finally show ?thesis by simp
qed

lemma base64_encode_chars:
  "c \<in> set (base64_encode bytes) \<Longrightarrow> b64_index c \<noteq> None \<or> c = 61"
  using sextets_of_bound [of bytes]
  by (auto simp: base64_encode_sextets list_all_iff b64_index_char)

lemma space_is_not_base64: "\<not> is_base64_encoding (s @ [32])"
proof
  assume "is_base64_encoding (s @ [32])"
  then obtain bytes where "s @ [32] = base64_encode bytes"
    unfolding is_base64_encoding_def by blast
  then have "32 \<in> set (base64_encode bytes)"
    by (metis in_set_conv_decomp)
  from base64_encode_chars [OF this] show False
    by (simp add: b64_index_def)
qed

lemma forgiving_base64_decode_trailing_space:
  "forgiving_base64_decode (s @ [32]) = forgiving_base64_decode s"
  by (simp add: forgiving_base64_decode_def is_ascii_whitespace_def)

lemma not_base64_rejected: "forgiving_base64_decode (lit ''not-base64!!'') = None"
  by (simp add: forgiving_base64_decode_def lit_def is_ascii_whitespace_def strip_padding_def
      b64_index_def)

lemma strip_padding_no_pad:
  assumes "list_all (\<lambda>c. c \<noteq> 61) xs"
  shows "strip_padding xs = xs"
  using strip_padding_encoded [of xs 0] assms
  by (cases "length xs mod 4 = 0") (simp_all add: strip_padding_def)

lemma filter_pad_encoding:
  "filter (\<lambda>c. c \<noteq> 61) (base64_encode bytes) = map b64_char (sextets_of bytes)"
  using sextets_of_bound [of bytes]
  by (auto simp: base64_encode_sextets list_all_iff b64_char_not_pad filter_id_conv)

lemma forgiving_base64_decode_unpadded:
  "forgiving_base64_decode (filter (\<lambda>c. c \<noteq> 61) (base64_encode bytes)) = Some bytes"
proof -
  let ?xs = "map b64_char (sextets_of bytes)"
  have bound: "list_all (\<lambda>n. n < 64) (sextets_of bytes)" by (rule sextets_of_bound)
  have nows: "filter (\<lambda>c. \<not> is_ascii_whitespace c) ?xs = ?xs"
    using bound by (auto simp: filter_id_conv list_all_iff b64_char_not_ws)
  have nopad: "list_all (\<lambda>c. c \<noteq> 61) ?xs"
    using bound by (auto simp: list_all_iff b64_char_not_pad)
  have idx: "map (\<lambda>c. the (b64_index c)) ?xs = sextets_of bytes"
    using bound by (auto simp: list_all_iff b64_index_char intro: map_idI)
  have ok: "\<not> list_ex (\<lambda>c. b64_index c = None) ?xs"
    using bound by (auto simp: list_all_iff list_ex_iff b64_index_char)
  show ?thesis
    unfolding filter_pad_encoding
    using length_sextets_mod [of bytes] ok
    by (simp add: forgiving_base64_decode_def nows strip_padding_no_pad [OF nopad] idx
        decode_sextets_of del: map_map)
qed

lemma forgiving_base64_decode_whitespace:
  "forgiving_base64_decode s
    = forgiving_base64_decode (filter (\<lambda>c. \<not> is_ascii_whitespace c) s)"
  by (simp add: forgiving_base64_decode_def)

lemma base64_encode_no_whitespace:
  "filter (\<lambda>c. \<not> is_ascii_whitespace c) (base64_encode bytes) = base64_encode bytes"
  using sextets_of_bound [of bytes]
  by (auto simp: base64_encode_sextets filter_id_conv list_all_iff b64_char_not_ws pad_not_ws)

lemma unpadded_no_whitespace:
  "filter (\<lambda>c. \<not> is_ascii_whitespace c) (filter (\<lambda>c. c \<noteq> 61) (base64_encode bytes))
    = filter (\<lambda>c. c \<noteq> 61) (base64_encode bytes)"
proof -
  have "filter (\<lambda>c. \<not> is_ascii_whitespace c) (filter (\<lambda>c. c \<noteq> 61) (base64_encode bytes))
      = filter (\<lambda>c. c \<noteq> 61) (filter (\<lambda>c. \<not> is_ascii_whitespace c) (base64_encode bytes))"
    by (simp add: conj_commute)
  then show ?thesis by (simp only: base64_encode_no_whitespace)
qed

section \<open>Bytes through \<^verbatim>\<open>btoa\<close> and back through \<^verbatim>\<open>atob\<close>\<close>

lemma btoa_fromCharCode: "btoa (fromCharCode bytes) = Inr (base64_encode bytes)"
proof -
  have "\<not> list_ex (\<lambda>c. 255 < unat c) (map ucast bytes :: js_string)"
  proof -
    have "unat c \<le> 255" for c :: byte using unat_byte_lt [of c] by simp
    then show ?thesis by (simp add: list_ex_iff unat_ucast_byte not_less)
  qed
  moreover have "map ucast (map ucast bytes :: js_string) = bytes"
    by (simp add: ucast_byte_unit comp_def)
  ultimately show ?thesis by (simp add: btoa_def fromCharCode_def del: map_map)
qed

lemma atob_base64_encode: "atob (base64_encode bytes) = Inr (fromCharCode bytes)"
  by (simp add: atob_def fromCharCode_def forgiving_base64_decode_encode)

lemma not_surrogate_byte: "\<not> is_high_surrogate (ucast (b :: byte))"
  using unat_byte_lt [of b] by (simp add: is_high_surrogate_def unat_ucast_byte)

lemma string_elements_fromCharCode:
  "string_elements (fromCharCode bytes) = map (\<lambda>b. [ucast b]) bytes"
proof (induction bytes rule: induct_list012)
  case (3 a b rest)
  then show ?case by (simp add: fromCharCode_def not_surrogate_byte)
qed (simp_all add: fromCharCode_def)

lemma Uint8Array_from_fromCharCode: "Uint8Array_from_charCodes (fromCharCode bytes) = bytes"
  by (simp add: Uint8Array_from_charCodes_def string_elements_fromCharCode comp_def ucast_byte_unit)

section \<open>UTF-8: decoding inverts encoding\<close>

text \<open>
  First the decoder on one lead byte and its continuation bytes, given as numbers in
  their ranges; then on the encoding of one scalar value; then on a whole text.
\<close>

lemma utf8_run_lead_ascii:
  assumes "b \<le> 127"
  shows "utf8_run utf8_initial (of_nat b # bs) = b # utf8_run utf8_initial bs"
proof -
  from assms have "unat (of_nat b :: byte) = b" by (simp add: unat_byte_of_nat)
  with assms show ?thesis
    by (simp add: utf8_handler_def utf8_lead_def utf8_initial_def del: of_nat_add)
qed

lemma utf8_run_two:
  assumes "194 \<le> b1" "b1 \<le> 223" "128 \<le> b2" "b2 \<le> 191"
  shows "utf8_run utf8_initial (of_nat b1 # of_nat b2 # bs)
    = (b1 mod 32 * 64 + b2 mod 64) # utf8_run utf8_initial bs"
proof -
  from assms have u: "unat (of_nat b1 :: byte) = b1" "unat (of_nat b2 :: byte) = b2"
    by (simp_all add: unat_byte_of_nat)
  have 1: "utf8_handler utf8_initial b1
      = ([], utf8_initial\<lparr>bytes_needed := 1, code_point := b1 mod 32\<rparr>)"
    using assms by (simp add: utf8_handler_def utf8_lead_def utf8_initial_def)
  have 2: "utf8_handler (utf8_initial\<lparr>bytes_needed := 1, code_point := b1 mod 32\<rparr>) b2
      = ([b1 mod 32 * 64 + b2 mod 64], utf8_initial)"
    using assms by (simp add: utf8_handler_def utf8_initial_def)
  show ?thesis by (simp only: utf8_run.simps u 1 2 fst_conv snd_conv append.simps)
qed

lemma utf8_run_three:
  assumes "224 \<le> b1" "b1 \<le> 239" "128 \<le> b2" "b2 \<le> 191" "128 \<le> b3" "b3 \<le> 191"
    and "b1 = 224 \<Longrightarrow> 160 \<le> b2" and "b1 = 237 \<Longrightarrow> b2 \<le> 159"
  shows "utf8_run utf8_initial (of_nat b1 # of_nat b2 # of_nat b3 # bs)
    = ((b1 mod 16 * 64 + b2 mod 64) * 64 + b3 mod 64) # utf8_run utf8_initial bs"
proof -
  let ?d1 = "utf8_initial\<lparr>bytes_needed := 2, code_point := b1 mod 16,
      lower_boundary := (if b1 = 224 then 160 else 128),
      upper_boundary := (if b1 = 237 then 159 else 191)\<rparr>"
  let ?d2 = "?d1\<lparr>code_point := b1 mod 16 * 64 + b2 mod 64, bytes_seen := 1,
      lower_boundary := 128, upper_boundary := 191\<rparr>"
  from assms have u: "unat (of_nat b1 :: byte) = b1" "unat (of_nat b2 :: byte) = b2"
      "unat (of_nat b3 :: byte) = b3"
    by (simp_all add: unat_byte_of_nat)
  have 1: "utf8_handler utf8_initial b1 = ([], ?d1)"
    using assms(1,2) by (simp add: utf8_handler_def utf8_lead_def utf8_initial_def)
  have 2: "utf8_handler ?d1 b2 = ([], ?d2)"
    using assms(3,4,7,8) by (auto simp: utf8_handler_def utf8_initial_def)
  have 3: "utf8_handler ?d2 b3
      = ([(b1 mod 16 * 64 + b2 mod 64) * 64 + b3 mod 64], utf8_initial)"
    using assms(5,6) by (simp add: utf8_handler_def utf8_initial_def)
  show ?thesis by (simp only: utf8_run.simps u 1 2 3 fst_conv snd_conv append.simps)
qed

lemma utf8_run_four:
  assumes "240 \<le> b1" "b1 \<le> 244" "128 \<le> b2" "b2 \<le> 191" "128 \<le> b3" "b3 \<le> 191"
    and "128 \<le> b4" "b4 \<le> 191"
    and "b1 = 240 \<Longrightarrow> 144 \<le> b2" and "b1 = 244 \<Longrightarrow> b2 \<le> 143"
  shows "utf8_run utf8_initial (of_nat b1 # of_nat b2 # of_nat b3 # of_nat b4 # bs)
    = (((b1 mod 8 * 64 + b2 mod 64) * 64 + b3 mod 64) * 64 + b4 mod 64)
      # utf8_run utf8_initial bs"
proof -
  let ?d1 = "utf8_initial\<lparr>bytes_needed := 3, code_point := b1 mod 8,
      lower_boundary := (if b1 = 240 then 144 else 128),
      upper_boundary := (if b1 = 244 then 143 else 191)\<rparr>"
  let ?d2 = "?d1\<lparr>code_point := b1 mod 8 * 64 + b2 mod 64, bytes_seen := 1,
      lower_boundary := 128, upper_boundary := 191\<rparr>"
  let ?d3 = "?d2\<lparr>code_point := (b1 mod 8 * 64 + b2 mod 64) * 64 + b3 mod 64, bytes_seen := 2,
      lower_boundary := 128, upper_boundary := 191\<rparr>"
  from assms have u: "unat (of_nat b1 :: byte) = b1" "unat (of_nat b2 :: byte) = b2"
      "unat (of_nat b3 :: byte) = b3" "unat (of_nat b4 :: byte) = b4"
    by (simp_all add: unat_byte_of_nat)
  have 1: "utf8_handler utf8_initial b1 = ([], ?d1)"
    using assms(1,2) by (simp add: utf8_handler_def utf8_lead_def utf8_initial_def)
  have 2: "utf8_handler ?d1 b2 = ([], ?d2)"
    using assms(3,4,9,10) by (auto simp: utf8_handler_def utf8_initial_def)
  have 3: "utf8_handler ?d2 b3 = ([], ?d3)"
    using assms(5,6) by (simp add: utf8_handler_def utf8_initial_def)
  have 4: "utf8_handler ?d3 b4
      = ([((b1 mod 8 * 64 + b2 mod 64) * 64 + b3 mod 64) * 64 + b4 mod 64], utf8_initial)"
    using assms(7,8) by (simp add: utf8_handler_def utf8_initial_def)
  show ?thesis by (simp only: utf8_run.simps u 1 2 3 4 fst_conv snd_conv append.simps)
qed

lemma mod_offset: "(c * m + q) mod m = q" if "q < m" for q :: nat
  using that by simp

lemma mod_window_low: "q mod m < w" if "c * m \<le> q" "q < c * m + w" "w \<le> m" for q :: nat
proof -
  from that have "q - c * m < m" by linarith
  then have "(c * m + (q - c * m)) mod m = q - c * m" by (rule mod_offset)
  with that show ?thesis by simp
qed

lemma mod_window_high: "w \<le> q mod m" if "c * m + w \<le> q" "q < c * m + m" for q :: nat
proof -
  from that have "q - c * m < m" by linarith
  then have "(c * m + (q - c * m)) mod m = q - c * m" by (rule mod_offset)
  with that show ?thesis by simp
qed

lemma continuation_byte: "128 \<le> 128 + q mod 64" "128 + q mod 64 \<le> 191"
  "(128 + q mod 64) mod 64 = q mod 64" for q :: nat
proof -
  show "128 \<le> 128 + q mod 64" by simp
  have "q mod 64 < 64" by simp
  then show "128 + q mod 64 \<le> 191" by linarith
  show "(128 + q mod 64) mod 64 = q mod 64"
    using mod_offset [of "q mod 64" 64 2] by simp
qed

lemma join_sextets: "q div 64 * 64 + q mod 64 = q" for q :: nat
  by simp

lemma utf8_run_encode_two:
  assumes "128 \<le> cp" "cp < 2048"
  shows "utf8_run utf8_initial (utf8_encode_code_point cp @ bs) = cp # utf8_run utf8_initial bs"
proof -
  from assms have lead: "194 \<le> 192 + cp div 64" "192 + cp div 64 \<le> 223" by linarith+
  from assms have "cp div 64 < 32" by simp
  then have "(192 + cp div 64) mod 32 = cp div 64"
    using mod_offset [of "cp div 64" 32 6] by simp
  then have val: "(192 + cp div 64) mod 32 * 64 + (128 + cp mod 64) mod 64 = cp"
    by (simp add: continuation_byte)
  have "utf8_encode_code_point cp @ bs = of_nat (192 + cp div 64) # of_nat (128 + cp mod 64) # bs"
    using assms by (simp add: utf8_encode_code_point_def del: of_nat_add)
  then show ?thesis
    by (simp only: utf8_run_two [OF lead continuation_byte(1,2)] val)
qed

lemma utf8_run_encode_three:
  assumes "2048 \<le> cp" "cp < 65536" "is_scalar_value cp"
  shows "utf8_run utf8_initial (utf8_encode_code_point cp @ bs) = cp # utf8_run utf8_initial bs"
proof -
  let ?b1 = "224 + cp div 4096" and ?b2 = "128 + cp div 64 mod 64" and ?b3 = "128 + cp mod 64"
  from assms have lead: "224 \<le> ?b1" "?b1 \<le> 239" by linarith+
  have low: "160 \<le> ?b2" if "?b1 = 224"
  proof -
    from that assms have "0 * 64 + 32 \<le> cp div 64" "cp div 64 < 0 * 64 + 64" by linarith+
    then have "32 \<le> cp div 64 mod 64" by (rule mod_window_high)
    then show ?thesis by simp
  qed
  have high: "?b2 \<le> 159" if "?b1 = 237"
  proof -
    from that have "53248 \<le> cp" "cp < 57344" by linarith+
    with assms(3) have "cp < 55296" by (simp add: is_scalar_value_def)
    with \<open>53248 \<le> cp\<close> have "13 * 64 \<le> cp div 64" "cp div 64 < 13 * 64 + 32" by linarith+
    then have "cp div 64 mod 64 < 32" by (rule mod_window_low) simp
    then show ?thesis by simp
  qed
  from assms have "cp div 4096 < 16" by simp
  then have "?b1 mod 16 = cp div 4096"
    using mod_offset [of "cp div 4096" 16 14] by simp
  moreover have "cp div 4096 * 64 + cp div 64 mod 64 = cp div 64"
    using join_sextets [of "cp div 64"] by (simp add: div_mult2_eq [symmetric])
  ultimately have val: "(?b1 mod 16 * 64 + ?b2 mod 64) * 64 + ?b3 mod 64 = cp"
    by (simp add: continuation_byte)
  have "utf8_encode_code_point cp @ bs = of_nat ?b1 # of_nat ?b2 # of_nat ?b3 # bs"
    using assms by (simp add: utf8_encode_code_point_def del: of_nat_add)
  then show ?thesis
    by (simp only: utf8_run_three [OF lead continuation_byte(1,2) continuation_byte(1,2) low high] val)
qed

lemma utf8_run_encode_four:
  assumes "65536 \<le> cp" "cp < 1114112"
  shows "utf8_run utf8_initial (utf8_encode_code_point cp @ bs) = cp # utf8_run utf8_initial bs"
proof -
  let ?b1 = "240 + cp div 262144" and ?b2 = "128 + cp div 4096 mod 64"
    and ?b3 = "128 + cp div 64 mod 64" and ?b4 = "128 + cp mod 64"
  from assms have lead: "240 \<le> ?b1" "?b1 \<le> 244" by linarith+
  have low: "144 \<le> ?b2" if "?b1 = 240"
  proof -
    from that assms have "0 * 64 + 16 \<le> cp div 4096" "cp div 4096 < 0 * 64 + 64" by linarith+
    then have "16 \<le> cp div 4096 mod 64" by (rule mod_window_high)
    then show ?thesis by simp
  qed
  have high: "?b2 \<le> 143" if "?b1 = 244"
  proof -
    from that assms have "4 * 64 \<le> cp div 4096" "cp div 4096 < 4 * 64 + 16" by linarith+
    then have "cp div 4096 mod 64 < 16" by (rule mod_window_low) simp
    then show ?thesis by simp
  qed
  from assms have "cp div 262144 < 8" by simp
  then have "?b1 mod 8 = cp div 262144"
    using mod_offset [of "cp div 262144" 8 30] by simp
  moreover have "cp div 262144 * 64 + cp div 4096 mod 64 = cp div 4096"
    using join_sextets [of "cp div 4096"] by (simp add: div_mult2_eq [symmetric])
  moreover have "cp div 4096 * 64 + cp div 64 mod 64 = cp div 64"
    using join_sextets [of "cp div 64"] by (simp add: div_mult2_eq [symmetric])
  ultimately have val:
    "((?b1 mod 8 * 64 + ?b2 mod 64) * 64 + ?b3 mod 64) * 64 + ?b4 mod 64 = cp"
    by (simp add: continuation_byte)
  have "utf8_encode_code_point cp @ bs = of_nat ?b1 # of_nat ?b2 # of_nat ?b3 # of_nat ?b4 # bs"
    using assms by (simp add: utf8_encode_code_point_def del: of_nat_add)
  then show ?thesis
    by (simp only: utf8_run_four [OF lead continuation_byte(1,2) continuation_byte(1,2)
          continuation_byte(1,2) low high] val)
qed

lemma utf8_run_encode:
  assumes "is_scalar_value cp"
  shows "utf8_run utf8_initial (utf8_encode_code_point cp @ bs) = cp # utf8_run utf8_initial bs"
proof -
  from assms have "cp < 1114112" by (auto simp: is_scalar_value_def)
  then consider "cp < 128" | "128 \<le> cp" "cp < 2048" | "2048 \<le> cp" "cp < 65536"
    | "65536 \<le> cp" "cp < 1114112"
    by linarith
  then show ?thesis
  proof cases
    case 1
    then have "utf8_encode_code_point cp @ bs = of_nat cp # bs"
      by (simp add: utf8_encode_code_point_def)
    with 1 show ?thesis by (simp only: utf8_run_lead_ascii)
  next
    case 2
    then show ?thesis by (rule utf8_run_encode_two)
  next
    case 3
    then show ?thesis using assms by (rule utf8_run_encode_three)
  next
    case 4
    then show ?thesis by (rule utf8_run_encode_four)
  qed
qed

lemma utf8_decode_encode:
  assumes "list_all is_scalar_value cps"
  shows "utf8_decode (concat (map utf8_encode_code_point cps)) = cps"
  using assms unfolding utf8_decode_def
proof (induction cps)
  case Nil
  show ?case by (simp add: utf8_initial_def)
next
  case (Cons cp cps)
  then show ?case by (simp add: utf8_run_encode)
qed

lemma utf8_first_byte:
  assumes "is_scalar_value cp"
  shows "\<exists>b rest. utf8_encode_code_point cp = b # rest \<and> unat b < 245"
proof -
  from assms have cp: "cp < 1114112" by (auto simp: is_scalar_value_def)
  consider "cp < 128" | "128 \<le> cp" "cp < 2048" | "2048 \<le> cp" "cp < 65536" | "65536 \<le> cp"
    by linarith
  then show ?thesis
  proof cases
    case 1
    then show ?thesis by (simp add: utf8_encode_code_point_def unat_byte_of_nat)
  next
    case 2
    then have "192 + cp div 64 < 224" by simp
    with 2 show ?thesis
      by (simp add: utf8_encode_code_point_def unat_byte_of_nat del: of_nat_add)
  next
    case 3
    then have "224 + cp div 4096 < 240" by simp
    with 3 show ?thesis
      by (simp add: utf8_encode_code_point_def unat_byte_of_nat del: of_nat_add)
  next
    case 4
    with cp have "240 + cp div 262144 < 245" by simp
    with 4 show ?thesis
      by (simp add: utf8_encode_code_point_def unat_byte_of_nat del: of_nat_add)
  qed
qed

lemma not_well_formed_FF: "\<not> well_formed_utf8 [255]"
proof
  assume "well_formed_utf8 [255]"
  then obtain cps where sc: "list_all is_scalar_value cps"
    and eq: "[255 :: byte] = concat (map utf8_encode_code_point cps)"
    unfolding well_formed_utf8_def by blast
  show False
  proof (cases cps)
    case Nil
    with eq show False by simp
  next
    case (Cons cp rest)
    with sc have "is_scalar_value cp" by simp
    from utf8_first_byte [OF this] obtain b bs
      where "utf8_encode_code_point cp = b # bs" and b: "unat b < 245" by blast
    with eq Cons have "b = 255" by simp
    with b show False by simp
  qed
qed

lemma TextDecoder_decode_FF: "TextDecoder_decode [255] = [65533]"
  by (simp add: TextDecoder_decode_def utf8_decode_def utf8_handler_def utf8_lead_def
      utf8_initial_def drop_bom_def code_point_units_def)

section \<open>Text through \<^verbatim>\<open>TextEncoder\<close> and back through \<^verbatim>\<open>TextDecoder\<close>\<close>

text \<open>
  Every string is encoded as the UTF-8 of scalar values, which the decoder reads back
  exactly; what is lost is lost around it: an unpaired surrogate when the string is turned
  into scalar values, and a leading U+FEFF when the decoder's output is turned into a
  string. A well-formed string that does not begin with U+FEFF comes back unchanged; a
  well-formed string after U+FEFF comes back without the U+FEFF.
\<close>

lemma unat_unit_lt: "unat (u :: code_unit) < 65536"
  using unsigned_less [of u, where ?'a = nat] by simp

lemma surrogate_pair_value:
  assumes "is_high_surrogate u" "is_low_surrogate v"
  shows "65536 \<le> 65536 + (unat u - 55296) * 1024 + (unat v - 56320)"
    and "65536 + (unat u - 55296) * 1024 + (unat v - 56320) < 1114112"
proof -
  from assms have "unat u - 55296 \<le> 1023" "unat v - 56320 \<le> 1023"
    unfolding is_high_surrogate_def is_low_surrogate_def by linarith+
  then have "(unat u - 55296) * 1024 \<le> 1023 * 1024" "unat v - 56320 \<le> 1023"
    by simp_all
  then show "65536 + (unat u - 55296) * 1024 + (unat v - 56320) < 1114112" by linarith
qed simp

lemma not_surrogate_scalar:
  assumes "\<not> is_high_surrogate u" "\<not> is_low_surrogate u"
  shows "is_scalar_value (unat u)"
  using assms unat_unit_lt [of u]
  by (auto simp: is_scalar_value_def is_high_surrogate_def is_low_surrogate_def)

lemma to_scalar_values_scalar: "list_all is_scalar_value (to_scalar_values s)"
proof (induction s rule: to_scalar_values.induct)
  case 1
  show ?case by simp
next
  case (2 u)
  show ?case by (simp add: not_surrogate_scalar) (simp add: is_scalar_value_def)
next
  case (3 u v rest)
  have repl: "is_scalar_value 65533" by (simp add: is_scalar_value_def)
  have pair: "is_scalar_value (65536 + (unat u - 55296) * 1024 + (unat v - 56320))"
    if "is_high_surrogate u" "is_low_surrogate v"
    using surrogate_pair_value [OF that] by (simp add: is_scalar_value_def)
  from 3 show ?case by (auto simp: repl pair not_surrogate_scalar)
qed

lemma code_point_units_unit:
  "code_point_units (unat u) = [u]"
  using unat_unit_lt [of u] by (simp add: code_point_units_def)

lemma code_point_units_pair:
  assumes "is_high_surrogate u" "is_low_surrogate v"
  shows "code_point_units (65536 + (unat u - 55296) * 1024 + (unat v - 56320)) = [u, v]"
proof -
  let ?h = "unat u - 55296" and ?l = "unat v - 56320"
  from assms have l: "?l < 1024" and hu: "55296 + ?h = unat u" and lv: "56320 + ?l = unat v"
    unfolding is_high_surrogate_def is_low_surrogate_def by linarith+
  have "(?h * 1024 + ?l) div 1024 = ?h" "(?h * 1024 + ?l) mod 1024 = ?l"
    using l by simp_all
  then have "code_point_units (65536 + ?h * 1024 + ?l)
      = [of_nat (55296 + ?h), of_nat (56320 + ?l)]"
    by (simp add: code_point_units_def add.assoc del: of_nat_add)
  then show ?thesis by (simp only: hu lv) simp
qed

lemma units_of_scalar_values:
  "well_formed_utf16 s \<Longrightarrow> concat (map code_point_units (to_scalar_values s)) = s"
proof (induction s rule: to_scalar_values.induct)
  case 1
  show ?case by simp
next
  case (2 u)
  then show ?case by (simp add: code_point_units_unit)
next
  case (3 u v rest)
  then show ?case
    by (auto simp: code_point_units_unit code_point_units_pair split: if_splits)
qed

lemma to_scalar_values_head:
  "to_scalar_values (u # s) = c # cs \<Longrightarrow> c = 65279 \<longleftrightarrow> u = 65279"
proof (cases s)
  case Nil
  assume "to_scalar_values (u # s) = c # cs"
  with Nil show ?thesis
    by (auto simp: is_high_surrogate_def is_low_surrogate_def word_unat_eq_iff split: if_splits)
next
  case (Cons v rest)
  assume "to_scalar_values (u # s) = c # cs"
  with Cons show ?thesis
    using surrogate_pair_value(1) [of u v]
    by (auto simp: is_high_surrogate_def is_low_surrogate_def word_unat_eq_iff split: if_splits)
qed

lemma TextDecoder_after_TextEncoder:
  "TextDecoder_decode (TextEncoder_encode s)
    = concat (map code_point_units (drop_bom (to_scalar_values s)))"
  by (simp add: TextDecoder_decode_def TextEncoder_encode_def utf8_decode_encode
      to_scalar_values_scalar)

lemma text_round_trip:
  assumes "well_formed_utf16 s" and "s = [] \<or> hd s \<noteq> 65279"
  shows "TextDecoder_decode (TextEncoder_encode s) = s"
proof -
  have "drop_bom (to_scalar_values s) = to_scalar_values s"
  proof (cases s)
    case Nil
    then show ?thesis by (simp add: drop_bom_def)
  next
    case (Cons u rest)
    with assms(2) have "u \<noteq> 65279" by simp
    with to_scalar_values_head [of u rest] Cons show ?thesis
      by (auto simp: drop_bom_def split: list.splits)
  qed
  then show ?thesis
    by (simp add: TextDecoder_after_TextEncoder units_of_scalar_values [OF assms(1)])
qed

lemma to_scalar_values_bom: "to_scalar_values (65279 # s) = 65279 # to_scalar_values s"
  by (cases s) (simp_all add: is_high_surrogate_def is_low_surrogate_def)

lemma text_round_trip_bom:
  assumes "well_formed_utf16 s"
  shows "TextDecoder_decode (TextEncoder_encode (65279 # s)) = s"
  by (simp add: TextDecoder_after_TextEncoder to_scalar_values_bom drop_bom_def
      units_of_scalar_values [OF assms])

lemma to_scalar_values_no_surrogate:
  "list_all (\<lambda>u. \<not> is_high_surrogate u \<and> \<not> is_low_surrogate u) s
    \<Longrightarrow> to_scalar_values s = map unat s"
  by (induction s rule: to_scalar_values.induct) simp_all

lemma ascii_no_surrogate:
  "unat u < 128 \<Longrightarrow> \<not> is_high_surrogate u \<and> \<not> is_low_surrogate u"
  by (simp add: is_high_surrogate_def is_low_surrogate_def)

lemma TextEncoder_encode_ascii:
  assumes "list_all (\<lambda>u. unat u < 128) s"
  shows "TextEncoder_encode s = map ucast s"
proof -
  have "to_scalar_values s = map unat s"
    using assms by (intro to_scalar_values_no_surrogate) (auto simp: list_all_iff ascii_no_surrogate)
  moreover have "concat (map utf8_encode_code_point (map unat s)) = map ucast s"
    using assms by (induction s) (simp_all add: utf8_encode_code_point_def)
  ultimately show ?thesis by (simp add: TextEncoder_encode_def)
qed

lemma length_TextEncoder_encode_letters:
  "length (TextEncoder_encode (replicate n 65)) = n"
  by (subst TextEncoder_encode_ascii) (simp_all add: list_all_iff)

lemma well_formed_abc: "well_formed_utf16 (lit ''abc'')"
  by (simp add: lit_def is_high_surrogate_def is_low_surrogate_def)

lemma abc_no_bom: "lit ''abc'' = [] \<or> hd (lit ''abc'') \<noteq> 65279"
  by (simp add: lit_def)

lemma length_encode_abc:
  "length (TextEncoder_encode (lit ''abc'')) \<le> 190"
  "length (TextEncoder_encode (65279 # lit ''abc'')) \<le> 190"
  by (simp_all add: TextEncoder_encode_def lit_def is_high_surrogate_def is_low_surrogate_def
      utf8_encode_code_point_def)

section \<open>An instance holding a generated key pair\<close>

lemma hash_length_sha256: "hash_length ''SHA-256'' = 32"
  by (simp add: hash_length_def)

lemma generateKeyPair_Inr:
  assumes "generateKeyPair P entropy = Inr keyPair"
  obtains pub priv where "rsa_generate P entropy 2048 [1, 0, 1] = Some (pub, priv)"
    and "keyPair =
      \<lparr>publicKey =
         \<lparr>ktype = Public, extractable = True,
          algorithm = \<lparr>name = ''RSA-OAEP'', modulusLength = 2048, publicExponent = [1, 0, 1],
                       hash = ''SHA-256''\<rparr>,
          usages = [Encrypt], handle = pub\<rparr>,
       privateKey =
         \<lparr>ktype = Private, extractable = True,
          algorithm = \<lparr>name = ''RSA-OAEP'', modulusLength = 2048, publicExponent = [1, 0, 1],
                       hash = ''SHA-256''\<rparr>,
          usages = [Decrypt], handle = priv\<rparr>\<rparr>"
  using assms
  by (auto simp: generateKeyPair_def subtle_generateKey_def split: option.splits)

lemma New_Inr:
  assumes "New P entropy = Inr this"
  shows "generateKeyPair P entropy = Inr this"
  using assms
  by (cases "generateKeyPair P entropy") (auto simp: New_def await_def constructor_def)

lemma generated_keys:
  assumes "generateKeyPair P entropy = Inr keyPair"
  shows "generated P (handle (publicKey keyPair)) (handle (privateKey keyPair))"
  using assms by (elim generateKeyPair_Inr) (auto simp: generated_def)

lemma generated_bits:
  assumes "keygen_sound P" "generateKeyPair P entropy = Inr keyPair"
  shows "rsa_bits P (handle (publicKey keyPair)) = 2048"
    and "rsa_exponent P (handle (publicKey keyPair)) = [1, 0, 1]"
    and "rsa_bits P (handle (privateKey keyPair)) = 2048"
    and "rsa_exponent P (handle (privateKey keyPair)) = [1, 0, 1]"
  using assms(2) assms(1) [unfolded keygen_sound_def]
  by (elim generateKeyPair_Inr; fastforce)+

lemma subtle_encrypt_generated:
  assumes "generateKeyPair P entropy = Inr keyPair"
  shows "subtle_encrypt P ''RSA-OAEP'' (publicKey keyPair) seed msg =
    (case oaep_encrypt P (handle (publicKey keyPair)) ''SHA-256'' seed msg of
       None \<Rightarrow> Inl OperationError | Some c \<Rightarrow> Inr c)"
  using assms by (elim generateKeyPair_Inr) (simp add: subtle_encrypt_def)

lemma subtle_decrypt_generated:
  assumes "generateKeyPair P entropy = Inr keyPair"
  shows "subtle_decrypt P ''RSA-OAEP'' (privateKey keyPair) c =
    (case oaep_decrypt P (handle (privateKey keyPair)) ''SHA-256'' c of
       None \<Rightarrow> Inl OperationError | Some msg \<Rightarrow> Inr msg)"
  using assms by (elim generateKeyPair_Inr) (simp add: subtle_decrypt_def)

lemma oaep_encrypt_capacity:
  assumes "keygen_sound P" "oaep_capacity P" "generateKeyPair P entropy = Inr keyPair"
    and "length seed = 32"
  shows "(oaep_encrypt P (handle (publicKey keyPair)) ''SHA-256'' seed msg = None)
    = (190 < length msg)"
proof -
  have "(oaep_encrypt P (handle (publicKey keyPair)) ''SHA-256'' seed msg = None)
    = ((rsa_bits P (handle (publicKey keyPair)) + 7) div 8
        < length msg + 2 * hash_length ''SHA-256'' + 2)"
    using assms(2) [unfolded oaep_capacity_def] generated_keys [OF assms(3)] assms(4)
    by (simp add: hash_length_sha256)
  then show ?thesis
    by (simp add: generated_bits(1) [OF assms(1,3)] hash_length_sha256)
qed

lemma encrypt_generated:
  assumes "generateKeyPair P entropy = Inr this"
  shows "encrypt P this seed data =
    (case oaep_encrypt P (handle (publicKey this)) ''SHA-256'' seed (TextEncoder_encode data) of
       None \<Rightarrow> Inl OperationError | Some c \<Rightarrow> Inr (base64_encode c))"
  by (simp add: encrypt_def await_def subtle_encrypt_generated [OF assms] btoa_fromCharCode
      split: option.splits)

lemma encrypt_capacity:
  assumes "keygen_sound P" "oaep_capacity P" "generateKeyPair P entropy = Inr this"
    and "length seed = 32"
  shows "length (TextEncoder_encode data) \<le> 190 \<Longrightarrow> \<exists>c. encrypt P this seed data = Inr c"
    and "190 < length (TextEncoder_encode data) \<Longrightarrow> encrypt P this seed data = Inl OperationError"
  using oaep_encrypt_capacity [OF assms, of "TextEncoder_encode data"]
  by (auto simp: encrypt_generated [OF assms(3)] split: option.splits)

lemma decrypt_base64:
  "decrypt P this (base64_encode c) =
    (case subtle_decrypt P ''RSA-OAEP'' (privateKey this) c of
       Inl e \<Rightarrow> Inl e | Inr msg \<Rightarrow> Inr (TextDecoder_decode msg))"
  by (simp add: decrypt_def await_def atob_base64_encode Uint8Array_from_fromCharCode)

lemma decrypt_trailing_space: "decrypt P this (s @ [32]) = decrypt P this s"
  by (simp add: decrypt_def atob_def forgiving_base64_decode_trailing_space)

lemma encrypt_then_decrypt:
  assumes "oaep_inverse P" "generateKeyPair P entropy = Inr this"
    and "length seed = 32" and "encrypt P this seed data = Inr c"
  shows "decrypt P this c = Inr (TextDecoder_decode (TextEncoder_encode data))"
proof -
  from assms(4) obtain bytes
    where enc: "oaep_encrypt P (handle (publicKey this)) ''SHA-256'' seed (TextEncoder_encode data)
      = Some bytes" and c: "c = base64_encode bytes"
    by (auto simp: encrypt_generated [OF assms(2)] split: option.splits)
  have "oaep_decrypt P (handle (privateKey this)) ''SHA-256'' bytes
      = Some (TextEncoder_encode data)"
    using assms(1) [unfolded oaep_inverse_def] generated_keys [OF assms(2)] assms(3) enc
    by (auto simp: hash_length_sha256)
  then show ?thesis
    by (simp add: c decrypt_base64 subtle_decrypt_generated [OF assms(2)])
qed

lemma encrypt_seeds_differ:
  assumes "oaep_seed_injective P" and "generateKeyPair P entropy = Inr this"
    and "length seed1 = 32" and "length seed2 = 32" and "seed1 \<noteq> seed2"
    and "encrypt P this seed1 data = Inr c1" and "encrypt P this seed2 data = Inr c2"
  shows "c1 \<noteq> c2"
proof -
  let ?pub = "handle (publicKey this)" and ?msg = "TextEncoder_encode data"
  from assms(6) obtain b1 where b1: "oaep_encrypt P ?pub ''SHA-256'' seed1 ?msg = Some b1"
    and c1: "c1 = base64_encode b1"
    by (auto simp: encrypt_generated [OF assms(2)] split: option.splits)
  from assms(7) obtain b2 where b2: "oaep_encrypt P ?pub ''SHA-256'' seed2 ?msg = Some b2"
    and c2: "c2 = base64_encode b2"
    by (auto simp: encrypt_generated [OF assms(2)] split: option.splits)
  have "generated P ?pub (handle (privateKey this))
      \<and> length seed1 = hash_length ''SHA-256'' \<and> length seed2 = hash_length ''SHA-256''
      \<and> seed1 \<noteq> seed2
      \<and> oaep_encrypt P ?pub ''SHA-256'' seed1 ?msg = Some b1
      \<and> oaep_encrypt P ?pub ''SHA-256'' seed2 ?msg = Some b2"
    using generated_keys [OF assms(2)] assms(3,4,5) b1 b2 by (simp add: hash_length_sha256)
  with assms(1) [unfolded oaep_seed_injective_def] have "b1 \<noteq> b2"
    by blast
  then show ?thesis
    using base64_encode_inj c1 c2 by blast
qed

text \<open>
  The round trip that holds: a well-formed plaintext that does not begin with U+FEFF and
  fits the key is encrypted, and decrypts to itself.
\<close>

lemma encrypt_decrypt_round_trip:
  assumes "keygen_sound P" and "oaep_capacity P" and "oaep_inverse P"
    and "generateKeyPair P entropy = Inr this" and "length seed = 32"
    and "well_formed_utf16 m" and "m = [] \<or> hd m \<noteq> 65279"
    and "length (TextEncoder_encode m) \<le> 190"
  shows "\<exists>c. encrypt P this seed m = Inr c \<and> decrypt P this c = Inr m"
proof -
  from encrypt_capacity(1) [OF assms(1,2,4,5,8)]
  obtain c where c: "encrypt P this seed m = Inr c" by blast
  from encrypt_then_decrypt [OF assms(3,4,5) c]
  have "decrypt P this c = Inr m" by (simp add: text_round_trip [OF assms(6,7)])
  with c show ?thesis by blast
qed

lemma encrypt_with_key:
  assumes "oaep_capacity P" and "can_encrypt_with P (publicKey this)"
    and "length seed = hash_length (hash (algorithm (publicKey this)))"
  shows "fits P (publicKey this) (length (TextEncoder_encode data))
      \<Longrightarrow> \<exists>c. encrypt P this seed data = Inr c"
    and "\<not> fits P (publicKey this) (length (TextEncoder_encode data))
      \<Longrightarrow> encrypt P this seed data = Inl OperationError"
proof -
  let ?key = "publicKey this" and ?msg = "TextEncoder_encode data"
  from assms(2) obtain priv where g: "generated P (handle ?key) priv"
    and k: "name (algorithm ?key) = ''RSA-OAEP''" "Encrypt \<in> set (usages ?key)"
      "ktype ?key = Public"
    by (auto simp: can_encrypt_with_def)
  have cap: "(oaep_encrypt P (handle ?key) (hash (algorithm ?key)) seed ?msg = None)
      = (\<not> fits P ?key (length ?msg))"
    using assms(1) [unfolded oaep_capacity_def] g assms(3)
    by (auto simp: fits_def not_le)
  have enc: "encrypt P this seed data =
      (case oaep_encrypt P (handle ?key) (hash (algorithm ?key)) seed ?msg of
         None \<Rightarrow> Inl OperationError | Some c \<Rightarrow> Inr (base64_encode c))"
    using k by (simp add: encrypt_def await_def subtle_encrypt_def btoa_fromCharCode
        split: option.splits)
  show "fits P ?key (length ?msg) \<Longrightarrow> \<exists>c. encrypt P this seed data = Inr c"
    using cap by (auto simp: enc split: option.splits)
  show "\<not> fits P ?key (length ?msg) \<Longrightarrow> encrypt P this seed data = Inl OperationError"
    using cap by (auto simp: enc split: option.splits)
qed

lemma New_can_encrypt:
  assumes "keygen_sound P" and "New P entropy = Inr this"
  shows "can_encrypt_with P (publicKey this)"
    and "hash (algorithm (publicKey this)) = ''SHA-256''"
    and "fits P (publicKey this) n \<longleftrightarrow> n \<le> 190"
proof -
  note g = New_Inr [OF assms(2)]
  show c: "can_encrypt_with P (publicKey this)"
    using generated_keys [OF g] g
    by (elim generateKeyPair_Inr) (auto simp: can_encrypt_with_def)
  show h: "hash (algorithm (publicKey this)) = ''SHA-256''"
    using g by (elim generateKeyPair_Inr) simp
  show "fits P (publicKey this) n \<longleftrightarrow> n \<le> 190"
    by (simp add: fits_def h generated_bits(1) [OF assms(1) g] hash_length_sha256)
qed

lemma generated_can_decrypt:
  assumes "generateKeyPair P entropy = Inr keyPair"
  shows "can_decrypt_with (privateKey keyPair)"
    and "hash (algorithm (privateKey keyPair)) = ''SHA-256''"
  using assms by (elim generateKeyPair_Inr; simp add: can_decrypt_with_def)+

lemma decrypt_same_decoding:
  assumes "forgiving_base64_decode s = forgiving_base64_decode t"
  shows "decrypt P this s = decrypt P this t"
  by (simp add: decrypt_def atob_def assms)

section \<open>Export and import of a generated key pair\<close>

lemma export_generated:
  assumes "generateKeyPair P entropy = Inr keyPair"
  shows "exportRSAKeyPairToBase64 P keyPair =
    Inr \<lparr>publicKey = base64_encode (spki_encode P (handle (publicKey keyPair))),
         privateKey = base64_encode (pkcs8_encode P (handle (privateKey keyPair)))\<rparr>"
  using assms
  by (elim generateKeyPair_Inr)
    (simp add: exportRSAKeyPairToBase64_def subtle_exportKey_def await_def btoa_fromCharCode)

lemma import_base64:
  "importRSAKeyPairFromBase64 P (base64_encode spki) (base64_encode pkcs8) =
     await (subtle_importKey P Spki spki ''RSA-OAEP'' ''SHA-256'' True [Encrypt]) (\<lambda>pub.
     await (subtle_importKey P Pkcs8 pkcs8 ''RSA-OAEP'' ''SHA-256'' True [Decrypt]) (\<lambda>priv.
     Inr \<lparr>publicKey = pub, privateKey = priv\<rparr>))"
  by (simp add: importRSAKeyPairFromBase64_def atob_base64_encode Uint8Array_from_fromCharCode
      await_def split: sum.splits)

lemma import_export:
  assumes "keygen_sound P" and "key_codec_inverse P"
    and "generateKeyPair P entropy = Inr keyPair"
    and "exportRSAKeyPairToBase64 P keyPair = Inr exported"
  shows "importRSAKeyPairFromBase64 P (publicKey exported) (privateKey exported) = Inr keyPair"
proof -
  let ?pub = "handle (publicKey keyPair)" and ?priv = "handle (privateKey keyPair)"
  have ex: "publicKey exported = base64_encode (spki_encode P ?pub)"
    "privateKey exported = base64_encode (pkcs8_encode P ?priv)"
    using assms(4) by (auto simp: export_generated [OF assms(3)])
  have parse: "spki_parse P (spki_encode P ?pub) = Some ?pub"
    "pkcs8_parse P (pkcs8_encode P ?priv) = Some ?priv"
    using assms(2) [unfolded key_codec_inverse_def] generated_keys [OF assms(3)] by auto
  note bits = generated_bits [OF assms(1,3)]
  show ?thesis
    using assms(3)
    by (elim generateKeyPair_Inr)
      (use bits parse in \<open>simp add: ex import_base64 subtle_importKey_def await_def\<close>)
qed

section \<open>The reference provider has the assumed properties\<close>

lemma toy_generated:
  "generated toy_provider pub priv \<longleftrightarrow>
    (\<exists>i bits e. 512 \<le> bits \<and> bits \<le> 65535
      \<and> pub = ToyKey False i bits e \<and> priv = ToyKey True i bits e)"
proof
  assume "generated toy_provider pub priv"
  then show "\<exists>i bits e. 512 \<le> bits \<and> bits \<le> 65535
      \<and> pub = ToyKey False i bits e \<and> priv = ToyKey True i bits e"
    by (auto simp: generated_def toy_provider_def toy_generate_def Let_def split: if_splits)
next
  assume "\<exists>i bits e. 512 \<le> bits \<and> bits \<le> 65535
      \<and> pub = ToyKey False i bits e \<and> priv = ToyKey True i bits e"
  then obtain i bits e where b: "512 \<le> bits" "bits \<le> 65535"
    and k: "pub = ToyKey False i bits e" "priv = ToyKey True i bits e" by blast
  have "rsa_generate toy_provider [i] bits e = Some (pub, priv)"
    using b k by (simp add: toy_provider_def toy_generate_def)
  then show "generated toy_provider pub priv"
    unfolding generated_def by blast
qed

lemma toy_keygen_sound: "keygen_sound toy_provider"
  by (auto simp: keygen_sound_def toy_provider_def toy_generate_def Let_def split: if_splits)

lemma toy_oaep_capacity: "oaep_capacity toy_provider"
  by (auto simp: oaep_capacity_def toy_provider_def toy_encrypt_def Let_def)

lemma two_byte_length:
  assumes "n < 65536"
  shows "unat (of_nat (n div 256) :: byte) * 256 + unat (of_nat (n mod 256) :: byte) = n"
proof -
  from assms have "n div 256 < 256" by simp
  then show ?thesis by (simp add: unat_byte_of_nat)
qed

lemma toy_decrypt_encrypt:
  assumes "toy_encrypt (ToyKey False i bits e) h seed msg = Some c"
    and "length seed = hash_length h" and "bits \<le> 65535"
  shows "toy_decrypt (ToyKey True i bits e) h c = Some msg"
proof -
  let ?k = "(bits + 7) div 8"
  from assms(1) have fits: "length msg + 2 * hash_length h + 2 \<le> ?k"
    and c: "c = i # seed @ of_nat (length msg div 256) # of_nat (length msg mod 256) # msg
               @ replicate (?k - (length msg + length seed + 3)) 0"
    by (auto simp: toy_encrypt_def Let_def split: if_splits)
  from fits assms(3) have "length msg < 65536" by linarith
  then have len: "unat (of_nat (length msg div 256) :: byte) * 256
      + unat (of_nat (length msg mod 256) :: byte) = length msg"
    by (rule two_byte_length)
  show ?thesis
    unfolding c toy_decrypt_def using assms(2) [symmetric] len by (simp add: Let_def)
qed

lemma toy_oaep_inverse: "oaep_inverse toy_provider"
  unfolding oaep_inverse_def toy_generated
  by (auto simp: toy_provider_def intro: toy_decrypt_encrypt)

lemma toy_oaep_seed_injective: "oaep_seed_injective toy_provider"
  unfolding oaep_seed_injective_def
  by (auto simp: toy_provider_def toy_encrypt_def Let_def split: if_splits)

lemma toy_parse_encode:
  assumes "bits \<le> 65535"
  shows "toy_parse p (toy_encode (ToyKey p i bits e)) = Some (ToyKey p i bits e)"
proof -
  from assms have "bits < 65536" by simp
  then have "unat (of_nat (bits div 256) :: byte) * 256 + unat (of_nat (bits mod 256) :: byte) = bits"
    by (rule two_byte_length)
  then show ?thesis by (simp add: toy_parse_def toy_encode_def)
qed

lemma toy_key_codec_inverse: "key_codec_inverse toy_provider"
  unfolding key_codec_inverse_def toy_generated
  by (auto simp: toy_provider_def toy_parse_encode)

lemma toy_generateKeyPair:
  "\<exists>keyPair. generateKeyPair toy_provider entropy = Inr keyPair"
  by (simp add: generateKeyPair_def subtle_generateKey_def toy_provider_def toy_generate_def Let_def)

lemma toy_New: "New toy_provider entropy = generateKeyPair toy_provider entropy"
  using toy_generateKeyPair [of entropy] by (auto simp: New_def await_def constructor_def)


section \<open>An instance to evaluate on\<close>

definition reference_instance :: "toy_key AsymmetricEncryption" where
  "reference_instance = projr (New toy_provider [7])"

definition reference_seed :: "byte list" where
  "reference_seed = replicate 32 5"

definition second_seed :: "byte list" where
  "second_seed = replicate 32 6"

lemma reference_instance_New: "New toy_provider [7] = Inr reference_instance"
  using toy_generateKeyPair [of "[7]"] by (auto simp: reference_instance_def toy_New)

lemma reference_instance_generated: "generateKeyPair toy_provider [7] = Inr reference_instance"
  using reference_instance_New by (simp add: toy_New)

lemma length_reference_seed: "length reference_seed = 32"
  by (simp add: reference_seed_def)

lemma second_seed_facts: "length second_seed = 32" "reference_seed \<noteq> second_seed"
  by (simp_all add: second_seed_def reference_seed_def)

lemma reference_encrypt:
  assumes "length seed = 32" and "length (TextEncoder_encode m) \<le> 190"
  shows "encrypt toy_provider reference_instance seed m
    = Inr (projr (encrypt toy_provider reference_instance seed m))"
  using encrypt_capacity(1) [OF toy_keygen_sound toy_oaep_capacity reference_instance_generated assms]
  by auto

lemma reference_handles:
  "handle (publicKey reference_instance) = ToyKey False 7 2048 [1, 0, 1]"
  "handle (privateKey reference_instance) = ToyKey True 7 2048 [1, 0, 1]"
  by (simp_all add: reference_instance_def New_def await_def constructor_def generateKeyPair_def
      subtle_generateKey_def toy_provider_def toy_generate_def)

definition malformed_block :: "byte list" where
  "malformed_block =
     the (toy_encrypt (handle (publicKey reference_instance)) ''SHA-256'' reference_seed [255])"

lemma malformed_block_decrypts:
  "oaep_decrypt toy_provider (handle (privateKey reference_instance)) ''SHA-256'' malformed_block
    = Some [255]"
proof -
  have "toy_encrypt (ToyKey False 7 2048 [1, 0, 1]) ''SHA-256'' reference_seed [255]
      = Some malformed_block"
    by (simp add: malformed_block_def reference_handles toy_encrypt_def hash_length_sha256
        Let_def)
  from toy_decrypt_encrypt [OF this]
  show ?thesis
    by (simp add: toy_provider_def reference_handles hash_length_sha256 length_reference_seed)
qed




definition imported_pair :: "nat \<Rightarrow> toy_key CryptoKeyPair" where
  "imported_pair bits =
     projr (importRSAKeyPairFromBase64 toy_provider
       (base64_encode (toy_encode (ToyKey False 9 bits [1, 0, 1])))
       (base64_encode (toy_encode (ToyKey True 9 bits [1, 0, 1]))))"

definition imported_instance :: "nat \<Rightarrow> toy_key AsymmetricEncryption" where
  "imported_instance bits =
     constructor (publicKey (imported_pair bits)) (privateKey (imported_pair bits))"

lemma imported_pair_eq:
  assumes "bits \<le> 65535"
  shows "importRSAKeyPairFromBase64 toy_provider
       (base64_encode (toy_encode (ToyKey False 9 bits [1, 0, 1])))
       (base64_encode (toy_encode (ToyKey True 9 bits [1, 0, 1])))
    = Inr \<lparr>publicKey =
         \<lparr>ktype = Public, extractable = True,
          algorithm = \<lparr>name = ''RSA-OAEP'', modulusLength = bits, publicExponent = [1, 0, 1],
                       hash = ''SHA-256''\<rparr>,
          usages = [Encrypt], handle = ToyKey False 9 bits [1, 0, 1]\<rparr>,
       privateKey =
         \<lparr>ktype = Private, extractable = True,
          algorithm = \<lparr>name = ''RSA-OAEP'', modulusLength = bits, publicExponent = [1, 0, 1],
                       hash = ''SHA-256''\<rparr>,
          usages = [Decrypt], handle = ToyKey True 9 bits [1, 0, 1]\<rparr>\<rparr>"
  by (simp add: import_base64 subtle_importKey_def await_def toy_provider_def
      toy_parse_encode [OF assms])

lemma imported_instance_eq:
  assumes "bits \<le> 65535"
  shows "imported_instance bits =
    \<lparr>publicKey =
       \<lparr>ktype = Public, extractable = True,
        algorithm = \<lparr>name = ''RSA-OAEP'', modulusLength = bits, publicExponent = [1, 0, 1],
                     hash = ''SHA-256''\<rparr>,
        usages = [Encrypt], handle = ToyKey False 9 bits [1, 0, 1]\<rparr>,
     privateKey =
       \<lparr>ktype = Private, extractable = True,
        algorithm = \<lparr>name = ''RSA-OAEP'', modulusLength = bits, publicExponent = [1, 0, 1],
                     hash = ''SHA-256''\<rparr>,
        usages = [Decrypt], handle = ToyKey True 9 bits [1, 0, 1]\<rparr>\<rparr>"
  by (simp add: imported_instance_def imported_pair_def imported_pair_eq [OF assms]
      constructor_def)

lemma imported_instance_key:
  assumes "512 \<le> bits" "bits \<le> 65535"
  shows "can_encrypt_with toy_provider (publicKey (imported_instance bits))"
    and "hash (algorithm (publicKey (imported_instance bits))) = ''SHA-256''"
    and "rsa_bits toy_provider (handle (publicKey (imported_instance bits))) = bits"
proof -
  have g: "generated toy_provider (ToyKey False 9 bits [1, 0, 1]) (ToyKey True 9 bits [1, 0, 1])"
    using assms by (simp add: toy_generated)
  then show "can_encrypt_with toy_provider (publicKey (imported_instance bits))"
    by (auto simp: can_encrypt_with_def imported_instance_eq [OF assms(2)])
  show "hash (algorithm (publicKey (imported_instance bits))) = ''SHA-256''"
    by (simp add: imported_instance_eq [OF assms(2)])
  have "handle (publicKey (imported_instance bits)) = ToyKey False 9 bits [1, 0, 1]"
    by (simp add: imported_instance_eq [OF assms(2)])
  then show "rsa_bits toy_provider (handle (publicKey (imported_instance bits))) = bits"
    by (simp add: toy_provider_def)
qed

lemma imported_instance_fits:
  assumes "512 \<le> bits" "bits \<le> 65535"
  shows "fits toy_provider (publicKey (imported_instance bits)) n \<longleftrightarrow> n + 66 \<le> (bits + 7) div 8"
  by (simp add: fits_def imported_instance_key(2,3) [OF assms] hash_length_sha256 add.commute)

lemma reference_can_decrypt: "can_decrypt_with (privateKey reference_instance)"
  by (rule generated_can_decrypt(1) [OF reference_instance_generated])

lemma reference_private_hash: "hash (algorithm (privateKey reference_instance)) = ''SHA-256''"
  by (rule generated_can_decrypt(2) [OF reference_instance_generated])

definition reference_ciphertext :: js_string where
  "reference_ciphertext =
     projr (encrypt toy_provider reference_instance reference_seed (lit ''abc''))"

lemma reference_ciphertext_encoding:
  obtains bytes where "reference_ciphertext = base64_encode bytes"
  using reference_encrypt [OF length_reference_seed length_encode_abc(1)]
  by (auto simp: reference_ciphertext_def encrypt_generated [OF reference_instance_generated]
      split: option.splits)

lemma reference_ciphertext_decrypts:
  "decrypt toy_provider reference_instance reference_ciphertext = Inr (lit ''abc'')"
  using encrypt_then_decrypt [OF toy_oaep_inverse reference_instance_generated
      length_reference_seed reference_encrypt [OF length_reference_seed length_encode_abc(1)]]
  by (simp add: reference_ciphertext_def text_round_trip [OF well_formed_abc abc_no_bom])

section \<open>Claims about \<open>encrypt\<close> and \<open>decrypt\<close>\<close>

text \<open>
  C1. The round trip \<open>decrypt (encrypt m) = m\<close> on one instance fails for every plaintext
  that begins with U+FEFF: for a well-formed text \<open>m\<close>, whatever the provider and the seed,
  when \<open>encrypt\<close> returns a ciphertext of U+FEFF followed by \<open>m\<close>, \<open>decrypt\<close> of it
  returns \<open>m\<close>, which is not the plaintext. The decoder built with no options leaves a
  leading U+FEFF out. (For every other well-formed plaintext within the limit the round trip
  holds: \<open>encrypt_decrypt_round_trip\<close>.)
\<close>

theorem decrypt_drops_leading_bom:
  assumes "oaep_inverse P" and "New P entropy = Inr this" and "length seed = 32"
    and "well_formed_utf16 m" and "encrypt P this seed (65279 # m) = Inr c"
  shows "decrypt P this c = Inr m \<and> m \<noteq> 65279 # m"
  using encrypt_then_decrypt [OF assms(1) New_Inr [OF assms(2)] assms(3,5)]
  by (simp add: text_round_trip_bom [OF assms(4)])

theorem decrypt_drops_leading_bom_witness:
  "decrypt toy_provider reference_instance
     (projr (encrypt toy_provider reference_instance reference_seed (65279 # lit ''abc'')))
   = Inr (lit ''abc'')"
  using decrypt_drops_leading_bom [OF toy_oaep_inverse reference_instance_New
      length_reference_seed well_formed_abc
      reference_encrypt [OF length_reference_seed length_encode_abc(2)]]
  by simp

text \<open>
  C2. For a generated key pair, export succeeds, importing the two exported strings
  succeeds and gives back the very same key pair (same attributes, same key material),
  so the serialization of keys is lossless. The instance built from the imported keys
  still does not reproduce every plaintext: when it encrypts U+FEFF followed by a
  well-formed text \<open>m\<close>, decrypting the ciphertext returns \<open>m\<close>.
\<close>

theorem import_export_instance_drops_leading_bom:
  assumes "keygen_sound P" and "key_codec_inverse P" and "oaep_inverse P"
    and "generateKeyPair P entropy = Inr keyPair" and "length seed = 32"
    and "well_formed_utf16 m"
  shows "\<exists>exported imported.
      exportRSAKeyPairToBase64 P keyPair = Inr exported
      \<and> importRSAKeyPairFromBase64 P (publicKey exported) (privateKey exported) = Inr imported
      \<and> imported = keyPair
      \<and> (\<forall>c. encrypt P (constructor (publicKey imported) (privateKey imported)) seed
                (65279 # m) = Inr c
            \<longrightarrow> decrypt P (constructor (publicKey imported) (privateKey imported)) c = Inr m)"
proof -
  obtain exported where ex: "exportRSAKeyPairToBase64 P keyPair = Inr exported"
    by (simp add: export_generated [OF assms(4)])
  have im: "importRSAKeyPairFromBase64 P (publicKey exported) (privateKey exported) = Inr keyPair"
    by (rule import_export [OF assms(1,2,4) ex])
  have same: "constructor (publicKey keyPair) (privateKey keyPair) = keyPair"
    by (simp add: constructor_def)
  have "decrypt P keyPair c = Inr m" if "encrypt P keyPair seed (65279 # m) = Inr c" for c
    using encrypt_then_decrypt [OF assms(3,4,5) that]
    by (simp add: text_round_trip_bom [OF assms(6)])
  with ex im same show ?thesis by simp
qed

theorem import_export_instance_drops_leading_bom_witness:
  "importRSAKeyPairFromBase64 toy_provider
      (publicKey (projr (exportRSAKeyPairToBase64 toy_provider reference_instance)))
      (privateKey (projr (exportRSAKeyPairToBase64 toy_provider reference_instance)))
    = Inr reference_instance
   \<and> decrypt toy_provider
        (constructor (publicKey reference_instance) (privateKey reference_instance))
        (projr (encrypt toy_provider
          (constructor (publicKey reference_instance) (privateKey reference_instance))
          reference_seed (65279 # lit ''abc'')))
      = Inr (lit ''abc'')"
proof -
  have same: "constructor (publicKey reference_instance) (privateKey reference_instance)
      = reference_instance"
    by (simp add: constructor_def)
  show ?thesis
    using import_export_instance_drops_leading_bom [OF toy_keygen_sound toy_key_codec_inverse
        toy_oaep_inverse reference_instance_generated length_reference_seed well_formed_abc]
      reference_encrypt [OF length_reference_seed length_encode_abc(2)]
    by (auto simp: same)
qed

text \<open>
  C3, as stated, fails: the limit of 190 bytes is that of a 2048-bit key, and an instance
  can hold another key. On an instance built by the constructor from imported 4096-bit
  keys a plaintext of 191 bytes is encrypted, and on one built from imported 1024-bit keys
  a plaintext of 190 bytes is refused.
\<close>

theorem encrypt_capacity_follows_key_counterexample:
  "length (TextEncoder_encode (replicate 191 65)) = 191
   \<and> encrypt toy_provider (imported_instance 4096) reference_seed (replicate 191 65)
      = Inr (projr (encrypt toy_provider (imported_instance 4096) reference_seed (replicate 191 65)))
   \<and> length (TextEncoder_encode (replicate 190 65)) = 190
   \<and> encrypt toy_provider (imported_instance 1024) reference_seed (replicate 190 65)
      = Inl OperationError"
proof -
  have big: "fits toy_provider (publicKey (imported_instance 4096))
      (length (TextEncoder_encode (replicate 191 65)))"
    by (simp add: imported_instance_fits length_TextEncoder_encode_letters)
  have small: "\<not> fits toy_provider (publicKey (imported_instance 1024))
      (length (TextEncoder_encode (replicate 190 65)))"
    by (simp add: imported_instance_fits length_TextEncoder_encode_letters)
  have s: "length reference_seed = hash_length (hash (algorithm (publicKey (imported_instance b))))"
    if "512 \<le> b" "b \<le> 65535" for b
    by (simp add: imported_instance_key(2) [OF that] hash_length_sha256 length_reference_seed)
  from encrypt_with_key(1) [OF toy_oaep_capacity imported_instance_key(1) s big]
  have "\<exists>c. encrypt toy_provider (imported_instance 4096) reference_seed (replicate 191 65) = Inr c"
    by simp
  moreover from encrypt_with_key(2) [OF toy_oaep_capacity imported_instance_key(1) s small]
  have "encrypt toy_provider (imported_instance 1024) reference_seed (replicate 190 65)
      = Inl OperationError"
    by simp
  ultimately show ?thesis
    by (auto simp: length_TextEncoder_encode_letters)
qed

text \<open>
  C3, amended. On an instance whose public key is an RSA-OAEP public key with the encrypt
  usage (its material a generated key's), with a seed of the hash's length: \<open>encrypt\<close>
  returns a ciphertext exactly when the UTF-8 encoding of the plaintext, of \<open>n\<close> bytes, fits
  the key, \<open>n + 2 hLen + 2 \<le> k\<close> with \<open>k\<close> the modulus length in bytes and \<open>hLen\<close> the length
  of the key's hash; and it fails with OperationError, the rejection the specification
  calls PlaintextTooLargeError, exactly when it does not fit. The outcome depends on the
  length alone. On an instance made by \<open>New\<close> (2048 bits, SHA-256) with a 32-byte seed this
  is a limit of 190 bytes: \<open>encrypt\<close> succeeds up to and at 190 bytes and fails with
  OperationError at 191 bytes or more.
\<close>

theorem encrypt_capacity_of_key:
  assumes "keygen_sound P" and "oaep_capacity P"
  shows "(can_encrypt_with P (publicKey this)
        \<and> length seed = hash_length (hash (algorithm (publicKey this)))
      \<longrightarrow> ((\<exists>c. encrypt P this seed data = Inr c)
            \<longleftrightarrow> fits P (publicKey this) (length (TextEncoder_encode data)))
        \<and> (encrypt P this seed data = Inl OperationError
            \<longleftrightarrow> \<not> fits P (publicKey this) (length (TextEncoder_encode data))))
    \<and> (New P entropy = Inr this \<and> length seed = 32
      \<longrightarrow> ((\<exists>c. encrypt P this seed data = Inr c) \<longleftrightarrow> length (TextEncoder_encode data) \<le> 190)
        \<and> (encrypt P this seed data = Inl OperationError
            \<longleftrightarrow> 191 \<le> length (TextEncoder_encode data)))"
proof -
  have general: "((\<exists>c. encrypt P this seed data = Inr c)
        \<longleftrightarrow> fits P (publicKey this) (length (TextEncoder_encode data)))
      \<and> (encrypt P this seed data = Inl OperationError
        \<longleftrightarrow> \<not> fits P (publicKey this) (length (TextEncoder_encode data)))"
    if k: "can_encrypt_with P (publicKey this)"
      and s: "length seed = hash_length (hash (algorithm (publicKey this)))"
  proof (cases "fits P (publicKey this) (length (TextEncoder_encode data))")
    case True
    from encrypt_with_key(1) [OF assms(2) k s True] show ?thesis using True by auto
  next
    case False
    from encrypt_with_key(2) [OF assms(2) k s False] show ?thesis using False by auto
  qed
  have made: "((\<exists>c. encrypt P this seed data = Inr c) \<longleftrightarrow> length (TextEncoder_encode data) \<le> 190)
      \<and> (encrypt P this seed data = Inl OperationError
        \<longleftrightarrow> 191 \<le> length (TextEncoder_encode data))"
    if n: "New P entropy = Inr this" and s: "length seed = 32"
  proof -
    note k = New_can_encrypt [OF assms(1) n]
    have "length seed = hash_length (hash (algorithm (publicKey this)))"
      by (simp add: k(2) s hash_length_sha256)
    from general [OF k(1) this] show ?thesis
      by (simp add: k(3) not_le) linarith
  qed
  from general made show ?thesis by blast
qed

theorem encrypt_capacity_of_key_witness:
  "(\<exists>c. encrypt toy_provider reference_instance reference_seed (replicate 190 65) = Inr c)
   \<and> encrypt toy_provider reference_instance reference_seed (replicate 191 65) = Inl OperationError
   \<and> (\<exists>c. encrypt toy_provider (imported_instance 4096) reference_seed (replicate 446 65) = Inr c)
   \<and> encrypt toy_provider (imported_instance 4096) reference_seed (replicate 447 65)
      = Inl OperationError"
proof -
  note rule = encrypt_capacity_of_key [OF toy_keygen_sound toy_oaep_capacity]
  have k: "can_encrypt_with toy_provider (publicKey (imported_instance 4096))"
    and s: "length reference_seed
      = hash_length (hash (algorithm (publicKey (imported_instance 4096))))"
    by (simp_all add: imported_instance_key hash_length_sha256 length_reference_seed)
  from rule [of reference_instance reference_seed "replicate 190 65" "[7]"]
    rule [of reference_instance reference_seed "replicate 191 65" "[7]"]
    rule [of "imported_instance 4096" reference_seed "replicate 446 65"]
    rule [of "imported_instance 4096" reference_seed "replicate 447 65"]
  show ?thesis
    using k s reference_instance_New length_reference_seed
    by (simp add: length_TextEncoder_encode_letters imported_instance_fits)
qed

text \<open>
  C4. Two encryptions of one plaintext under one public key with two different OAEP
  seeds give two different ciphertext strings. They do not both decrypt to the
  plaintext when it begins with U+FEFF: for U+FEFF followed by a well-formed text \<open>m\<close>,
  both decrypt to \<open>m\<close>.
\<close>

theorem two_encryptions_differ_and_drop_bom:
  assumes "oaep_inverse P" and "oaep_seed_injective P" and "New P entropy = Inr this"
    and "length seed1 = 32" and "length seed2 = 32" and "seed1 \<noteq> seed2"
    and "well_formed_utf16 m"
    and "encrypt P this seed1 (65279 # m) = Inr c1"
    and "encrypt P this seed2 (65279 # m) = Inr c2"
  shows "c1 \<noteq> c2 \<and> decrypt P this c1 = Inr m \<and> decrypt P this c2 = Inr m
    \<and> m \<noteq> 65279 # m"
proof -
  note g = New_Inr [OF assms(3)]
  have "c1 \<noteq> c2"
    by (rule encrypt_seeds_differ [OF assms(2) g assms(4,5,6,8,9)])
  moreover have "decrypt P this c1 = Inr m"
    using encrypt_then_decrypt [OF assms(1) g assms(4,8)]
    by (simp add: text_round_trip_bom [OF assms(7)])
  moreover have "decrypt P this c2 = Inr m"
    using encrypt_then_decrypt [OF assms(1) g assms(5,9)]
    by (simp add: text_round_trip_bom [OF assms(7)])
  ultimately show ?thesis by simp
qed

theorem two_encryptions_differ_and_drop_bom_witness:
  "projr (encrypt toy_provider reference_instance reference_seed (65279 # lit ''abc''))
     \<noteq> projr (encrypt toy_provider reference_instance second_seed (65279 # lit ''abc''))
   \<and> decrypt toy_provider reference_instance
        (projr (encrypt toy_provider reference_instance reference_seed (65279 # lit ''abc'')))
      = Inr (lit ''abc'')
   \<and> decrypt toy_provider reference_instance
        (projr (encrypt toy_provider reference_instance second_seed (65279 # lit ''abc'')))
      = Inr (lit ''abc'')"
  using two_encryptions_differ_and_drop_bom [OF toy_oaep_inverse toy_oaep_seed_injective
      reference_instance_New length_reference_seed second_seed_facts well_formed_abc
      reference_encrypt [OF length_reference_seed length_encode_abc(2)]
      reference_encrypt [OF second_seed_facts(1) length_encode_abc(2)]]
  by simp

section \<open>Claims about the failures of \<open>decrypt\<close>\<close>

text \<open>
  C5, as stated, fails: the block \<open>malformed_block\<close> decrypts under OAEP to the single
  byte FF, which is not well-formed UTF-8, and \<open>decrypt\<close> of its Base64 text does not
  raise: it returns the one-character string U+FFFD.
\<close>

theorem decrypt_returns_replacement_characters_counterexample:
  "oaep_decrypt toy_provider (handle (privateKey reference_instance)) ''SHA-256'' malformed_block
     = Some [255]
   \<and> \<not> well_formed_utf8 [255]
   \<and> decrypt toy_provider reference_instance (base64_encode malformed_block) = Inr [65533]"
  by (simp add: malformed_block_decrypts not_well_formed_FF decrypt_base64
      subtle_decrypt_generated [OF reference_instance_generated] TextDecoder_decode_FF)

text \<open>
  C5, amended. On an instance whose private key is an RSA-OAEP private key with the
  decrypt usage, and for an input that \<open>atob\<close> accepts: when the OAEP step fails,
  \<open>decrypt\<close> fails with OperationError (the specification's DecryptionError); when the OAEP
  step gives bytes, \<open>decrypt\<close> does not fail, whatever the bytes are: it returns their
  decoding by the decoder that is not fatal. Bytes that are not well-formed UTF-8 give a
  string, not an error.
\<close>

theorem decrypt_fails_only_in_oaep:
  assumes "can_decrypt_with (privateKey this)" and "atob encryptedBase64Data = Inr binary"
  shows "(oaep_decrypt P (handle (privateKey this)) (hash (algorithm (privateKey this)))
          (Uint8Array_from_charCodes binary) = None
      \<longrightarrow> decrypt P this encryptedBase64Data = Inl OperationError)
    \<and> (\<forall>bytes.
        oaep_decrypt P (handle (privateKey this)) (hash (algorithm (privateKey this)))
          (Uint8Array_from_charCodes binary) = Some bytes
        \<longrightarrow> decrypt P this encryptedBase64Data = Inr (TextDecoder_decode bytes))"
  using assms(1)
  by (simp add: decrypt_def await_def assms(2) subtle_decrypt_def can_decrypt_with_def)

theorem decrypt_fails_only_in_oaep_witness:
  "decrypt toy_provider reference_instance (base64_encode [1, 2, 3]) = Inl OperationError
   \<and> decrypt toy_provider reference_instance (base64_encode malformed_block)
      = Inr (TextDecoder_decode [255])"
proof -
  have "oaep_decrypt toy_provider (handle (privateKey reference_instance))
      (hash (algorithm (privateKey reference_instance)))
      (Uint8Array_from_charCodes (fromCharCode [1, 2, 3])) = None"
    by (simp add: Uint8Array_from_fromCharCode toy_provider_def toy_decrypt_def reference_handles)
  moreover have "oaep_decrypt toy_provider (handle (privateKey reference_instance))
      (hash (algorithm (privateKey reference_instance)))
      (Uint8Array_from_charCodes (fromCharCode malformed_block)) = Some [255]"
    by (simp add: Uint8Array_from_fromCharCode malformed_block_decrypts reference_private_hash)
  ultimately show ?thesis
    using decrypt_fails_only_in_oaep [where P = toy_provider,
        OF reference_can_decrypt atob_base64_encode [of "[1, 2, 3]"]]
      decrypt_fails_only_in_oaep [where P = toy_provider,
        OF reference_can_decrypt atob_base64_encode [of malformed_block]]
    by simp
qed



text \<open>
  C7, as stated, fails when "valid Base64" is RFC 4648's padded encoding, as the
  specification's section on external interfaces has it: a ciphertext of "abc" followed
  by a space is not the Base64 encoding of any bytes, and \<open>decrypt\<close> does not reject it:
  it decrypts it and returns "abc".
\<close>

theorem decrypt_accepts_trailing_space_counterexample:
  "\<not> is_base64_encoding
       (projr (encrypt toy_provider reference_instance reference_seed (lit ''abc'')) @ [32])
   \<and> decrypt toy_provider reference_instance
        (projr (encrypt toy_provider reference_instance reference_seed (lit ''abc'')) @ [32])
      = Inr (lit ''abc'')"
  using encrypt_then_decrypt [OF toy_oaep_inverse reference_instance_generated
      length_reference_seed reference_encrypt [OF length_reference_seed length_encode_abc(1)]]
  by (simp add: space_is_not_base64 decrypt_trailing_space
      text_round_trip [OF well_formed_abc abc_no_bom])

text \<open>
  C7, amended. For every input that the forgiving decoder of \<open>atob\<close> rejects (with
  ASCII whitespace removed and a final \<open>=\<close> or \<open>==\<close> of a length-four-multiple removed:
  a length of 1 modulo 4, or a character outside the alphabet), \<open>decrypt\<close> fails with
  InvalidCharacterError (the specification's DecodingError), whatever the provider and
  the keys: nothing is decrypted; every such input is indeed not valid Base64. And an
  input that, with its ASCII whitespace removed, is the Base64 encoding of some bytes,
  with its padding or with every \<open>=\<close> left out, is accepted: \<open>decrypt\<close> does with it exactly
  what it does with that encoding.
\<close>

theorem decrypt_rejects_what_atob_rejects:
  "(forgiving_base64_decode encryptedBase64Data = None
      \<longrightarrow> \<not> is_base64_encoding encryptedBase64Data
        \<and> decrypt P this encryptedBase64Data = Inl InvalidCharacterError)
   \<and> (filter (\<lambda>c. \<not> is_ascii_whitespace c) encryptedBase64Data = base64_encode bytes
       \<or> filter (\<lambda>c. \<not> is_ascii_whitespace c) encryptedBase64Data
          = filter (\<lambda>c. c \<noteq> 61) (base64_encode bytes)
      \<longrightarrow> decrypt P this encryptedBase64Data = decrypt P this (base64_encode bytes))"
proof -
  have rej: "\<not> is_base64_encoding encryptedBase64Data
      \<and> decrypt P this encryptedBase64Data = Inl InvalidCharacterError"
    if r: "forgiving_base64_decode encryptedBase64Data = None"
  proof -
    have "\<not> is_base64_encoding encryptedBase64Data"
      using r by (auto simp: is_base64_encoding_def forgiving_base64_decode_encode)
    moreover have "decrypt P this encryptedBase64Data = Inl InvalidCharacterError"
      by (simp add: decrypt_def await_def atob_def r)
    ultimately show ?thesis by simp
  qed
  have acc: "decrypt P this encryptedBase64Data = decrypt P this (base64_encode bytes)"
    if "filter (\<lambda>c. \<not> is_ascii_whitespace c) encryptedBase64Data = base64_encode bytes
       \<or> filter (\<lambda>c. \<not> is_ascii_whitespace c) encryptedBase64Data
          = filter (\<lambda>c. c \<noteq> 61) (base64_encode bytes)"
  proof -
    have "forgiving_base64_decode encryptedBase64Data = Some bytes"
      using that
      by (subst forgiving_base64_decode_whitespace)
        (auto simp: forgiving_base64_decode_encode forgiving_base64_decode_unpadded)
    then show ?thesis
      by (intro decrypt_same_decoding) (simp add: forgiving_base64_decode_encode)
  qed
  from rej acc show ?thesis by blast
qed

theorem decrypt_rejects_what_atob_rejects_witness:
  "\<not> is_base64_encoding (lit ''not-base64!!'')
   \<and> decrypt toy_provider reference_instance (lit ''not-base64!!'') = Inl InvalidCharacterError
   \<and> decrypt toy_provider reference_instance
        (9 # filter (\<lambda>c. c \<noteq> 61) reference_ciphertext @ [10, 32])
      = Inr (lit ''abc'')"
proof -
  obtain bytes where c: "reference_ciphertext = base64_encode bytes"
    by (rule reference_ciphertext_encoding)
  have ws: "filter (\<lambda>c. \<not> is_ascii_whitespace c)
      (9 # filter (\<lambda>c. c \<noteq> 61) (base64_encode bytes) @ [10, 32])
    = filter (\<lambda>c. c \<noteq> 61) (base64_encode bytes)"
    using unpadded_no_whitespace [of bytes] by (simp add: is_ascii_whitespace_def)
  from decrypt_rejects_what_atob_rejects [of "lit ''not-base64!!''" toy_provider
      reference_instance]
    decrypt_rejects_what_atob_rejects [of
      "9 # filter (\<lambda>c. c \<noteq> 61) (base64_encode bytes) @ [10, 32]" toy_provider
      reference_instance bytes]
  show ?thesis
    using not_base64_rejected ws reference_ciphertext_decrypts by (simp add: c)
qed

section \<open>Claims about import and the services context\<close>

text \<open>
  C8. Import succeeds whenever each of the two strings decodes, by \<open>atob\<close>, to bytes that
  parse as a key of its format, and it returns exactly these two keys. Nothing relates
  the public key to the private key: no check that they belong together is made.
\<close>

theorem import_accepts_unpaired_keys:
  assumes "atob base64PublicKey = Inr publicBinary"
    and "spki_parse P (Uint8Array_from_charCodes publicBinary) = Some pub"
    and "atob base64PrivateKey = Inr privateBinary"
    and "pkcs8_parse P (Uint8Array_from_charCodes privateBinary) = Some priv"
  shows "\<exists>keyPair. importRSAKeyPairFromBase64 P base64PublicKey base64PrivateKey = Inr keyPair
    \<and> handle (publicKey keyPair) = pub \<and> handle (privateKey keyPair) = priv"
  using assms by (simp add: importRSAKeyPairFromBase64_def await_def subtle_importKey_def)

theorem import_accepts_unpaired_keys_witness:
  "\<not> generated toy_provider (ToyKey False 7 2048 [1, 0, 1]) (ToyKey True 9 2048 [1, 0, 1])
   \<and> (\<exists>keyPair.
        importRSAKeyPairFromBase64 toy_provider
          (base64_encode (toy_encode (ToyKey False 7 2048 [1, 0, 1])))
          (base64_encode (toy_encode (ToyKey True 9 2048 [1, 0, 1]))) = Inr keyPair
        \<and> handle (publicKey keyPair) = ToyKey False 7 2048 [1, 0, 1]
        \<and> handle (privateKey keyPair) = ToyKey True 9 2048 [1, 0, 1])"
proof -
  have "spki_parse toy_provider (Uint8Array_from_charCodes
      (fromCharCode (toy_encode (ToyKey False 7 2048 [1, 0, 1])))) = Some (ToyKey False 7 2048 [1, 0, 1])"
    and "pkcs8_parse toy_provider (Uint8Array_from_charCodes
      (fromCharCode (toy_encode (ToyKey True 9 2048 [1, 0, 1])))) = Some (ToyKey True 9 2048 [1, 0, 1])"
    by (simp_all add: Uint8Array_from_fromCharCode toy_provider_def toy_parse_encode)
  from import_accepts_unpaired_keys [OF atob_base64_encode this(1) atob_base64_encode this(2)]
  show ?thesis by (simp add: toy_generated)
qed

text \<open>
  C10. With no provider above the caller, or with the nearest provider holding null,
  \<open>useServices\<close> throws the Error whose message is
  "useServices must be used within a ServicesProvider"; when the nearest provider holds
  a services value, \<open>useServices\<close> returns exactly that value.
\<close>

theorem useServices_null_or_value:
  "useServices [] = Inl (Error ''useServices must be used within a ServicesProvider'')
   \<and> useServices (None # outer) = Inl (Error ''useServices must be used within a ServicesProvider'')
   \<and> useServices (Some v # outer) = Inr v"
  by (simp add: useServices_def ServicesContext_default_def)

end
